theory Spec2Isabelle
  imports Main "HOL-Library.Sublist" "HOL-Library.AList" "HOL-Library.Char_ord"
    "HOL-Library.List_Lexorder"
begin

section \<open>Decoded feed messages\<close>

text \<open>
  The poller of \<^verbatim>\<open>apps/poller/scripts/poll_to_postgres.py\<close> reads GTFS-RT protobuf
  messages. A decoded \<^verbatim>\<open>FeedMessage\<close> is a header timestamp (an unsigned integer,
  0 when the header carries none) and a list of entities; each entity has an id and up to
  three optional payloads (\<^verbatim>\<open>HasField("vehicle")\<close>, \<^verbatim>\<open>HasField("trip_update")\<close>,
  \<^verbatim>\<open>HasField("alert")\<close>). Optional fields are options: \<open>None\<close> is the key missing
  from the \<^verbatim>\<open>MessageToDict\<close> dictionary, \<open>Some\<close> a field that is present, whatever
  its value. \<^verbatim>\<open>MessageToDict\<close> prints a 64-bit integer as a string of digits: the
  vehicle timestamp and the bounds of an active period are unsigned (\<open>nat\<close>), the time
  of a stop time event is signed (\<open>int\<close>). A string is a list of characters with code
  points below 256. Latitude and longitude (floating point) are copied through by the
  source unchanged and are left out.
\<close>

datatype FeedType = VEHICLE_POSITIONS | TRIP_UPDATES | ALERTS

record VehiclePayload =
  vp_trip_id :: "string option"
  vp_stop_id :: "string option"
  vp_vehicle_id :: "string option"
  vp_label :: "string option"
  vp_status :: "string option"
  vp_timestamp :: "nat option"

record StopTimeUpdate =
  stu_stop_id :: "string option"
  stu_arrival_time :: "int option"
  stu_arrival_delay :: "int option"
  stu_departure_time :: "int option"
  stu_departure_delay :: "int option"
  stu_schedule_relationship :: "string option"

record TripUpdatePayload =
  tu_trip_id :: "string option"
  tu_schedule_relationship :: "string option"
  tu_stop_time_update :: "StopTimeUpdate list"

record Translation =
  tr_language :: "string option"
  tr_text :: "string option"

record ActivePeriod =
  ap_start :: "nat option"
  ap_end :: "nat option"

record InformedEntity =
  ie_route_id :: "string option"
  ie_stop_id :: "string option"
  ie_trip_id :: "string option"

record AlertPayload =
  al_translation :: "Translation list"
  al_active_period :: "ActivePeriod list"
  al_informed_entity :: "InformedEntity list"
  al_effect :: "string option"
  al_cause :: "string option"

record FeedEntity =
  entity_id :: string
  vehicle :: "VehiclePayload option"
  trip_update :: "TripUpdatePayload option"
  alert :: "AlertPayload option"

record FeedMessage =
  header_ts :: nat
  entity :: "FeedEntity list"

text \<open>
  Exceptions of the source are values. \<open>ValueError_unclassifiable\<close> is the
  \<^verbatim>\<open>ValueError\<close> of \<^verbatim>\<open>classify_feed\<close>; \<open>FetchError\<close> stands for whatever
  \<^verbatim>\<open>poll_gtfs.fetch_feed\<close> raises (network, HTTP status, decode);
  \<open>UniqueViolation\<close> is the database's answer to a plain \<^verbatim>\<open>INSERT\<close> of a key
  that is already there; \<open>OperationalError\<close> is a statement failing because the server
  or the connection does; \<open>KeyError\<close> is a dictionary read of a key that is not there;
  \<open>OSError\<close> is what \<^verbatim>\<open>datetime.fromtimestamp\<close> raises when the C library cannot
  break the time down.
\<close>

datatype exn =
  ValueError_unclassifiable | FetchError | UniqueViolation | OperationalError | KeyError
  | OSError

section \<open>FeedClassifier: \<^verbatim>\<open>classify_feed\<close>\<close>

text \<open>\<^verbatim>\<open>str.lower\<close> on the code points below 256: the letters A to Z, and the
  capital letters of Latin-1 (192 to 222 but for the multiplication sign 215).\<close>

definition lower_char :: "char \<Rightarrow> char" where
  "lower_char c =
     (let n = (of_char c :: nat) in
      if (65 \<le> n \<and> n \<le> 90) \<or> (192 \<le> n \<and> n \<le> 222 \<and> n \<noteq> 215) then char_of (n + 32)
      else c)"

definition lower :: "string \<Rightarrow> string" where
  "lower s = map lower_char s"

text \<open>The loop over \<^verbatim>\<open>message.entity\<close>: it returns at the first entity that has any
  of the three fields, testing them in the order vehicle, trip update, alert.\<close>

fun classify_entities :: "FeedEntity list \<Rightarrow> FeedType option" where
  "classify_entities [] = None"
| "classify_entities (e # es) =
     (if vehicle e \<noteq> None then Some VEHICLE_POSITIONS
      else if trip_update e \<noteq> None then Some TRIP_UPDATES
      else if alert e \<noteq> None then Some ALERTS
      else classify_entities es)"

definition classify_url :: "string \<Rightarrow> exn + FeedType" where
  "classify_url url =
     (let url_lower = lower url in
      if sublist ''vehicle'' url_lower then Inr VEHICLE_POSITIONS
      else if sublist ''trip'' url_lower then Inr TRIP_UPDATES
      else if sublist ''alert'' url_lower then Inr ALERTS
      else Inl ValueError_unclassifiable)"

definition classify_feed :: "string \<Rightarrow> FeedMessage \<Rightarrow> exn + FeedType" where
  "classify_feed url message =
     (case classify_entities (entity message) of
        Some t \<Rightarrow> Inr t
      | None \<Rightarrow> classify_url url)"

text \<open>The decision order as the specification words it: any entity with a vehicle
  payload, else any entity with a trip update, else any entity with an alert, else the
  URL.\<close>

definition classify_feed_spec :: "string \<Rightarrow> FeedMessage \<Rightarrow> exn + FeedType" where
  "classify_feed_spec url message =
     (if list_ex (\<lambda>e. vehicle e \<noteq> None) (entity message) then Inr VEHICLE_POSITIONS
      else if list_ex (\<lambda>e. trip_update e \<noteq> None) (entity message) then Inr TRIP_UPDATES
      else if list_ex (\<lambda>e. alert e \<noteq> None) (entity message) then Inr ALERTS
      else classify_url url)"

definition has_payload :: "FeedEntity \<Rightarrow> bool" where
  "has_payload e \<longleftrightarrow> vehicle e \<noteq> None \<or> trip_update e \<noteq> None \<or> alert e \<noteq> None"

definition kind_of_entity :: "FeedEntity \<Rightarrow> FeedType" where
  "kind_of_entity e =
     (if vehicle e \<noteq> None then VEHICLE_POSITIONS
      else if trip_update e \<noteq> None then TRIP_UPDATES
      else ALERTS)"

definition mk_entity ::
  "string \<Rightarrow> VehiclePayload option \<Rightarrow> TripUpdatePayload option \<Rightarrow> AlertPayload option
    \<Rightarrow> FeedEntity" where
  "mk_entity i v t a = \<lparr>entity_id = i, vehicle = v, trip_update = t, alert = a\<rparr>"

definition empty_trip_update :: TripUpdatePayload where
  "empty_trip_update =
     \<lparr>tu_trip_id = None, tu_schedule_relationship = None, tu_stop_time_update = []\<rparr>"

definition empty_vehicle :: VehiclePayload where
  "empty_vehicle =
     \<lparr>vp_trip_id = None, vp_stop_id = None, vp_vehicle_id = None, vp_label = None,
      vp_status = None, vp_timestamp = None\<rparr>"

definition empty_alert :: AlertPayload where
  "empty_alert =
     \<lparr>al_translation = [], al_active_period = [], al_informed_entity = [],
      al_effect = None, al_cause = None\<rparr>"

lemma classify_entities_find:
  "classify_entities es = map_option kind_of_entity (find has_payload es)"
  by (induction es) (auto simp: has_payload_def kind_of_entity_def)

text \<open>
  Claim C3, as stated, fails: a message whose first entity carries a trip update and whose
  second entity carries a vehicle position is classified trip-updates by the code, where
  the stated order (any vehicle payload first) gives vehicle-positions.
\<close>

theorem classify_feed_mixed_counterexample:
  "classify_feed ''https://example.com/feed.pb''
     \<lparr>header_ts = 100,
      entity = [mk_entity ''1'' None (Some empty_trip_update) None,
                mk_entity ''2'' (Some empty_vehicle) None None]\<rparr>
     = Inr TRIP_UPDATES
   \<and> classify_feed_spec ''https://example.com/feed.pb''
     \<lparr>header_ts = 100,
      entity = [mk_entity ''1'' None (Some empty_trip_update) None,
                mk_entity ''2'' (Some empty_vehicle) None None]\<rparr>
     = Inr VEHICLE_POSITIONS"
  by (simp add: classify_feed_def classify_feed_spec_def mk_entity_def)

text \<open>
  Claim C3, amended: the first entity of the message that carries any of the three
  payloads decides the kind (vehicle position before trip update before alert within that
  entity); when no entity carries a payload, the lowercased URL is searched for
  "vehicle", "trip", "alert" in that order, and classification fails with the
  unclassifiable-feed error when none occurs.
\<close>

theorem classify_feed_first_payload:
  "classify_feed url message =
     (case find has_payload (entity message) of
        Some e \<Rightarrow> Inr (kind_of_entity e)
      | None \<Rightarrow>
          if sublist ''vehicle'' (lower url) then Inr VEHICLE_POSITIONS
          else if sublist ''trip'' (lower url) then Inr TRIP_UPDATES
          else if sublist ''alert'' (lower url) then Inr ALERTS
          else Inl ValueError_unclassifiable)"
  by (simp add: classify_feed_def classify_entities_find classify_url_def Let_def
      split: option.splits)

section \<open>DimensionResolver: \<^verbatim>\<open>DimLookup\<close> and \<^verbatim>\<open>StopTimesCsvFallback\<close>\<close>

text \<open>
  Python's truth test on an optional string: \<^verbatim>\<open>None\<close> and the empty string are
  false.
\<close>

definition truthy :: "string option \<Rightarrow> bool" where
  "truthy s \<longleftrightarrow> s \<noteq> None \<and> s \<noteq> Some []"

record StopTimeEntry =
  stop_sequence :: int
  stop_id :: string
  arrival_seconds :: "int option"
  departure_seconds :: "int option"

text \<open>
  The reference tables the resolver reads (\<^verbatim>\<open>dim_trips\<close>, \<^verbatim>\<open>dim_routes\<close>,
  \<^verbatim>\<open>dim_stops\<close>, \<^verbatim>\<open>dim_stop_times\<close>) as the connection sees them during one
  cycle. \<^verbatim>\<open>dim_trips\<close> maps a trip id to its (nullable) route id; a row of
  \<^verbatim>\<open>dim_stop_times\<close> is a trip id with its entry. The resolver's queries are taken
  to succeed: what is said below of the resolver and of the rows built with it is said
  of a cycle in which the database answers them.
\<close>

record RefData =
  dim_trips :: "(string \<times> string option) list"
  dim_routes :: "string list"
  dim_stops :: "string list"
  dim_stop_times :: "(string \<times> StopTimeEntry) list"

text \<open>
  A row of the fallback CSV after \<^verbatim>\<open>csv.DictReader\<close>: the stop sequence is the
  result of \<^verbatim>\<open>int(...)\<close> (\<open>None\<close> when the cell is empty or not a number), the
  times are the results of \<^verbatim>\<open>_time_to_seconds\<close>.
\<close>

record CsvRow =
  csv_trip_id :: "string option"
  csv_stop_sequence :: "int option"
  csv_stop_id :: "string option"
  csv_arrival_seconds :: "int option"
  csv_departure_seconds :: "int option"

datatype csv_file = FileMissing | CsvFile "CsvRow list"

definition csv_entry :: "string \<Rightarrow> CsvRow \<Rightarrow> StopTimeEntry option" where
  "csv_entry trip_id row =
     (if csv_trip_id row \<noteq> Some trip_id then None
      else case csv_stop_sequence row of
        None \<Rightarrow> None
      | Some sq \<Rightarrow>
          (case csv_stop_id row of
             None \<Rightarrow> None
           | Some sid \<Rightarrow>
               if sid = [] then None
               else Some \<lparr>stop_sequence = sq, stop_id = sid,
                          arrival_seconds = csv_arrival_seconds row,
                          departure_seconds = csv_departure_seconds row\<rparr>))"

text \<open>
  \<^verbatim>\<open>StopTimesCsvFallback.get_profile\<close>. Its own cache and miss set only spare a
  second read of the file; \<^verbatim>\<open>DimLookup\<close> asks once per trip, so the result is a
  function of the file. Python's \<^verbatim>\<open>list.sort\<close> is stable, as \<open>sort_key\<close> is.
\<close>

definition get_profile :: "csv_file \<Rightarrow> string \<Rightarrow> StopTimeEntry list" where
  "get_profile f trip_id =
     (case f of
        FileMissing \<Rightarrow> []
      | CsvFile rows \<Rightarrow> sort_key stop_sequence (List.map_filter (csv_entry trip_id) rows))"

text \<open>The caches are dictionaries; the three \<^verbatim>\<open>missing\<close> sets are lists without
  repetition, \<^verbatim>\<open>set.add\<close> being \<open>List.insert\<close>.\<close>

record DimLookup =
  stop_times_fallback :: "csv_file option"
  trip_routes :: "string \<rightharpoonup> string option"
  trip_profiles :: "string \<rightharpoonup> StopTimeEntry list"
  trip_exists :: "string \<rightharpoonup> bool"
  route_exists :: "string \<rightharpoonup> bool"
  stop_exists :: "string \<rightharpoonup> bool"
  missing_trip :: "string list"
  missing_route :: "string list"
  missing_stop :: "string list"

definition DimLookup_init :: "csv_file option \<Rightarrow> DimLookup" where
  "DimLookup_init stop_times_csv =
     \<lparr>stop_times_fallback = stop_times_csv,
      trip_routes = Map.empty, trip_profiles = Map.empty, trip_exists = Map.empty,
      route_exists = Map.empty, stop_exists = Map.empty,
      missing_trip = [], missing_route = [], missing_stop = []\<rparr>"

definition ensure_trip :: "RefData \<Rightarrow> string option \<Rightarrow> DimLookup \<Rightarrow> bool \<times> DimLookup" where
  "ensure_trip ref trip_id lk =
     (case trip_id of
        None \<Rightarrow> (False, lk)
      | Some t \<Rightarrow>
          if t = [] then (False, lk)
          else case trip_exists lk t of
            Some b \<Rightarrow> (b, lk)
          | None \<Rightarrow>
              let ex = (map_of (dim_trips ref) t \<noteq> None);
                  lk1 = (if \<not> ex then lk\<lparr>missing_trip := List.insert t (missing_trip lk)\<rparr>
                         else lk)
              in (ex, lk1\<lparr>trip_exists := (trip_exists lk1)(t \<mapsto> ex)\<rparr>))"

definition get_route_for_trip ::
  "RefData \<Rightarrow> string option \<Rightarrow> DimLookup \<Rightarrow> string option \<times> DimLookup" where
  "get_route_for_trip ref trip_id lk =
     (case trip_id of
        None \<Rightarrow> (None, lk)
      | Some t \<Rightarrow>
          if t = [] then (None, lk)
          else case trip_routes lk t of
            Some r \<Rightarrow> (r, lk)
          | None \<Rightarrow>
              (case (case map_of (dim_trips ref) t of None \<Rightarrow> None | Some r \<Rightarrow> r) of
                 None \<Rightarrow>
                   (None, lk\<lparr>missing_trip := List.insert t (missing_trip lk),
                              trip_routes := (trip_routes lk)(t \<mapsto> None)\<rparr>)
               | Some route_id \<Rightarrow>
                   let lk1 = (if route_id = []
                              then lk\<lparr>missing_route :=
                                     List.insert (''(from trip '' @ t @ '')'') (missing_route lk)\<rparr>
                              else lk)
                   in (Some route_id,
                       lk1\<lparr>trip_routes := (trip_routes lk1)(t \<mapsto> Some route_id)\<rparr>)))"

text \<open>The query of \<^verbatim>\<open>_load_trip_profile\<close>: the rows of one trip, ordered by stop
  sequence.\<close>

definition select_stop_times :: "RefData \<Rightarrow> string \<Rightarrow> StopTimeEntry list" where
  "select_stop_times ref trip_id =
     sort_key stop_sequence (map snd (filter (\<lambda>r. fst r = trip_id) (dim_stop_times ref)))"

definition load_trip_profile ::
  "RefData \<Rightarrow> string \<Rightarrow> DimLookup \<Rightarrow> StopTimeEntry list \<times> DimLookup" where
  "load_trip_profile ref trip_id lk =
     (case trip_profiles lk trip_id of
        Some p \<Rightarrow> (p, lk)
      | None \<Rightarrow>
          let rows = select_stop_times ref trip_id;
              (profile, lk1) =
                (if rows \<noteq> [] then (rows, lk)
                 else case stop_times_fallback lk of
                   Some f \<Rightarrow>
                     let p = get_profile f trip_id in
                     if p = [] then (p, lk\<lparr>missing_trip := List.insert trip_id (missing_trip lk)\<rparr>)
                     else (p, lk)
                 | None \<Rightarrow> ([], lk\<lparr>missing_trip := List.insert trip_id (missing_trip lk)\<rparr>))
          in (profile, lk1\<lparr>trip_profiles := (trip_profiles lk1)(trip_id \<mapsto> profile)\<rparr>))"

text \<open>The \<^verbatim>\<open>enumerate\<close> loop of \<^verbatim>\<open>get_stop_context\<close>: the first entry with the
  stop id, and its index.\<close>

fun find_stop :: "nat \<Rightarrow> StopTimeEntry list \<Rightarrow> string \<Rightarrow> (nat \<times> StopTimeEntry) option" where
  "find_stop i [] s = None"
| "find_stop i (e # es) s = (if stop_id e = s then Some (i, e) else find_stop (Suc i) es s)"

definition get_stop_context ::
  "RefData \<Rightarrow> string option \<Rightarrow> string option \<Rightarrow> DimLookup
    \<Rightarrow> (nat \<times> StopTimeEntry) option \<times> DimLookup" where
  "get_stop_context ref trip_id stop lk =
     (if \<not> truthy trip_id \<or> \<not> truthy stop then (None, lk)
      else
        let (profile, lk1) = load_trip_profile ref (the trip_id) lk in
        if profile = [] then (None, lk1)
        else case find_stop 0 profile (the stop) of
          Some c \<Rightarrow> (Some c, lk1)
        | None \<Rightarrow> (None, lk1\<lparr>missing_stop := List.insert (the stop) (missing_stop lk1)\<rparr>))"

definition get_adjacent_stop ::
  "RefData \<Rightarrow> string option \<Rightarrow> nat \<Rightarrow> bool \<Rightarrow> DimLookup \<Rightarrow> StopTimeEntry option \<times> DimLookup" where
  "get_adjacent_stop ref trip_id current_index forward lk =
     (case trip_id of
        None \<Rightarrow> (None, lk)
      | Some t \<Rightarrow>
          let (profile, lk1) = load_trip_profile ref t lk in
          if profile = [] then (None, lk1)
          else
            let next_index = int current_index + (if forward then 1 else - 1) in
            if 0 \<le> next_index \<and> next_index < int (length profile)
            then (Some (profile ! nat next_index), lk1)
            else (None, lk1))"

definition ensure_route :: "RefData \<Rightarrow> string option \<Rightarrow> DimLookup \<Rightarrow> bool \<times> DimLookup" where
  "ensure_route ref route_id lk =
     (case route_id of
        None \<Rightarrow> (False, lk)
      | Some r \<Rightarrow>
          if r = [] then (False, lk)
          else case route_exists lk r of
            Some b \<Rightarrow> (b, lk)
          | None \<Rightarrow>
              let ex = (r \<in> set (dim_routes ref));
                  lk1 = (if \<not> ex then lk\<lparr>missing_route := List.insert r (missing_route lk)\<rparr>
                         else lk)
              in (ex, lk1\<lparr>route_exists := (route_exists lk1)(r \<mapsto> ex)\<rparr>))"

definition ensure_stop :: "RefData \<Rightarrow> string option \<Rightarrow> DimLookup \<Rightarrow> bool \<times> DimLookup" where
  "ensure_stop ref stop lk =
     (case stop of
        None \<Rightarrow> (False, lk)
      | Some s \<Rightarrow>
          if s = [] then (False, lk)
          else case stop_exists lk s of
            Some b \<Rightarrow> (b, lk)
          | None \<Rightarrow>
              let ex = (s \<in> set (dim_stops ref));
                  lk1 = (if \<not> ex then lk\<lparr>missing_stop := List.insert s (missing_stop lk)\<rparr>
                         else lk)
              in (ex, lk1\<lparr>stop_exists := (stop_exists lk1)(s \<mapsto> ex)\<rparr>))"

text \<open>
  \<^verbatim>\<open>report_missing\<close>: one warning per category whose set is not empty, in the order
  of the dictionary (trip, route, stop), with the first ten keys in sorted order and the
  number of the others; then the set is cleared. A log line is kept as its parts: the
  category, the sample, and the count behind \<^verbatim>\<open>(+N more)\<close> when there is one.
\<close>

record MissingLine =
  ml_category :: string
  ml_sample :: "string list"
  ml_more :: "nat option"

definition missing_line :: "string \<Rightarrow> string list \<Rightarrow> MissingLine list" where
  "missing_line key values =
     (if values = [] then []
      else [\<lparr>ml_category = key,
             ml_sample = take 10 (sort values),
             ml_more = (if length values \<le> 10 then None else Some (length values - 10))\<rparr>])"

definition report_missing :: "DimLookup \<Rightarrow> MissingLine list \<times> DimLookup" where
  "report_missing lk =
     (missing_line ''trip'' (missing_trip lk) @ missing_line ''route'' (missing_route lk)
        @ missing_line ''stop'' (missing_stop lk),
      lk\<lparr>missing_trip := [], missing_route := [], missing_stop := []\<rparr>)"

section \<open>VehiclePositionWriter: \<^verbatim>\<open>extract_vehicle_position_rows\<close>\<close>

record FeedEnvelope =
  url :: string
  feed_type :: FeedType
  message :: FeedMessage
  header_timestamp :: "nat option"

text \<open>
  An instant (\<^verbatim>\<open>datetime\<close> with time zone UTC) is kept as its epoch seconds.
  \<open>from_timestamp\<close> is the \<^verbatim>\<open>try\<close> block of \<^verbatim>\<open>_epoch_to_datetime\<close>,
  \<^verbatim>\<open>datetime.fromtimestamp(int(value), tz=timezone.utc)\<close> with the three exceptions
  that are caught: the years 1 to 9999 give the instant; outside them the call raises
  \<^verbatim>\<open>ValueError\<close>, and beyond 64 bits \<^verbatim>\<open>OverflowError\<close>, which are caught and
  give nothing; but where the year does not fit the C library's \<^verbatim>\<open>struct tm\<close> (from
  67768036191676800 up to the largest and from -67768040609740801 down to the smallest
  signed 64-bit number) it raises \<^verbatim>\<open>OSError\<close>, which is not caught.
\<close>

definition from_timestamp :: "int \<Rightarrow> exn + int option" where
  "from_timestamp n =
     (if - 62135596800 \<le> n \<and> n \<le> 253402300799 then Inr (Some n)
      else if (67768036191676800 \<le> n \<and> n < 2 ^ 63)
              \<or> (- (2 ^ 63) \<le> n \<and> n \<le> - 67768040609740801)
      then Inl OSError
      else Inr None)"

text \<open>
  \<^verbatim>\<open>_epoch_to_datetime\<close> on a value out of \<^verbatim>\<open>MessageToDict\<close>, a string of
  digits or a missing key: the test \<^verbatim>\<open>value in (None, "", 0)\<close> holds for the missing
  key only (the string \<^verbatim>\<open>"0"\<close> is not the number 0, and gives the first instant of
  1970).
\<close>

definition epoch_to_datetime :: "int option \<Rightarrow> exn + int option" where
  "epoch_to_datetime v = (case v of None \<Rightarrow> Inr None | Some n \<Rightarrow> from_timestamp n)"

text \<open>
  \<^verbatim>\<open>_epoch_to_datetime\<close> on the header timestamp of an envelope, a Python integer
  or \<^verbatim>\<open>None\<close>: here the number 0 gives nothing as well.
\<close>

definition epoch_to_datetime_int :: "nat option \<Rightarrow> exn + int option" where
  "epoch_to_datetime_int v =
     (case v of None \<Rightarrow> Inr None | Some n \<Rightarrow> if n = 0 then Inr None else from_timestamp (int n))"

text \<open>A snapshot id (\<^verbatim>\<open>uuid.uuid4()\<close>) is a number chosen by the environment.\<close>

record VehiclePositionRecord =
  vpr_snapshot_id :: nat
  vpr_entity_id :: string
  vpr_vehicle_id :: "string option"
  vpr_vehicle_label :: "string option"
  vpr_trip_id :: "string option"
  vpr_route_id :: "string option"
  vpr_current_stop_id :: "string option"
  vpr_previous_stop_id :: "string option"
  vpr_next_stop_id :: "string option"
  vpr_next_stop_sequence :: "int option"
  vpr_status :: "string option"
  vpr_vehicle_timestamp_utc :: "int option"

text \<open>The part of the loop body that resolves the stops around the current one
  (lines 998 to 1012 of the source): first the body of \<^verbatim>\<open>if context:\<close>, then the
  whole.\<close>

definition resolve_neighbours ::
  "RefData \<Rightarrow> string option \<Rightarrow> nat \<Rightarrow> DimLookup
    \<Rightarrow> (string option \<times> string option \<times> int option) \<times> DimLookup" where
  "resolve_neighbours ref raw_trip_id index lk =
     (let (prev_entry, lk2) = get_adjacent_stop ref raw_trip_id index False lk;
          (next_entry, lk3) = get_adjacent_stop ref raw_trip_id index True lk2;
          (previous_stop, lk4) =
            (case prev_entry of
               None \<Rightarrow> (None, lk3)
             | Some pe \<Rightarrow>
                 let (ok, l) = ensure_stop ref (Some (stop_id pe)) lk3
                 in (if ok then Some (stop_id pe) else None, l));
          (next_stop, lk5) =
            (case next_entry of
               None \<Rightarrow> ((None, None), lk4)
             | Some ne \<Rightarrow>
                 let (ok, l) = ensure_stop ref (Some (stop_id ne)) lk4
                 in (if ok then (Some (stop_id ne), Some (stop_sequence ne))
                     else (None, None), l))
      in ((previous_stop, fst next_stop, snd next_stop), lk5))"

definition resolve_adjacent ::
  "RefData \<Rightarrow> string option \<Rightarrow> string option \<Rightarrow> DimLookup
    \<Rightarrow> (string option \<times> string option \<times> int option) \<times> DimLookup" where
  "resolve_adjacent ref raw_trip_id current_stop lk =
     (let (context, lk1) =
            (if truthy current_stop \<and> truthy raw_trip_id
             then get_stop_context ref raw_trip_id current_stop lk
             else (None, lk))
      in case context of
           None \<Rightarrow> ((None, None, None), lk1)
         | Some (index, entry) \<Rightarrow> resolve_neighbours ref raw_trip_id index lk1)"

text \<open>The rest of the loop body, for an entity that has a vehicle payload and a
  non-empty id. The record is built after the lookups; the conversion of the vehicle's
  timestamp is the only place where building it can raise.\<close>

definition vehicle_record ::
  "nat \<Rightarrow> RefData \<Rightarrow> string \<Rightarrow> VehiclePayload \<Rightarrow> DimLookup
    \<Rightarrow> (exn + VehiclePositionRecord) \<times> DimLookup" where
  "vehicle_record snapshot ref eid v lk =
     (let raw_trip_id = vp_trip_id v;
          (trip_valid, lk1) = ensure_trip ref raw_trip_id lk;
          (route0, lk2) =
            (if trip_valid then get_route_for_trip ref raw_trip_id lk1 else (None, lk1));
          (route, lk3) =
            (if truthy route0
             then let (ok, l) = ensure_route ref route0 lk2 in (if ok then route0 else None, l)
             else (route0, lk2));
          (stop_ok, lk4) = ensure_stop ref (vp_stop_id v) lk3;
          current_stop = (if stop_ok then vp_stop_id v else None);
          ((previous_stop, next_stop, next_sequence), lk5) =
            resolve_adjacent ref raw_trip_id current_stop lk4
      in (case epoch_to_datetime (map_option int (vp_timestamp v)) of
            Inl exc \<Rightarrow> Inl exc
          | Inr vehicle_timestamp \<Rightarrow>
              Inr \<lparr>vpr_snapshot_id = snapshot,
                   vpr_entity_id = eid,
                   vpr_vehicle_id = vp_vehicle_id v,
                   vpr_vehicle_label = vp_label v,
                   vpr_trip_id = (if trip_valid then raw_trip_id else None),
                   vpr_route_id = route,
                   vpr_current_stop_id = current_stop,
                   vpr_previous_stop_id = previous_stop,
                   vpr_next_stop_id = next_stop,
                   vpr_next_stop_sequence = next_sequence,
                   vpr_status = vp_status v,
                   vpr_vehicle_timestamp_utc = vehicle_timestamp\<rparr>,
          lk5))"

text \<open>The loop over the entities; \<^verbatim>\<open>records_by_entity\<close> is a dictionary, so a later
  entity with the same id replaces the record and keeps its place
  (\<open>AList.update\<close>). An exception leaves the loop and the function; the resolver, an
  object of the caller, keeps what the lookups did to it.\<close>

fun extract_loop ::
  "nat \<Rightarrow> RefData \<Rightarrow> FeedEntity list \<Rightarrow> (string \<times> VehiclePositionRecord) list \<Rightarrow> DimLookup
    \<Rightarrow> (exn + (string \<times> VehiclePositionRecord) list) \<times> DimLookup" where
  "extract_loop snapshot ref [] recs lk = (Inr recs, lk)"
| "extract_loop snapshot ref (e # es) recs lk =
     (case vehicle e of
        None \<Rightarrow> extract_loop snapshot ref es recs lk
      | Some v \<Rightarrow>
          if entity_id e = [] then extract_loop snapshot ref es recs lk
          else
            let (res, lk1) = vehicle_record snapshot ref (entity_id e) v lk
            in case res of
                 Inl exc \<Rightarrow> (Inl exc, lk1)
               | Inr r \<Rightarrow>
                   extract_loop snapshot ref es (AList.update (entity_id e) r recs) lk1)"

definition extract_vehicle_position_rows ::
  "nat \<Rightarrow> RefData \<Rightarrow> FeedEnvelope \<Rightarrow> DimLookup
    \<Rightarrow> (exn + VehiclePositionRecord list) \<times> DimLookup" where
  "extract_vehicle_position_rows snapshot ref envelope lk =
     (if entity (message envelope) = [] then (Inr [], lk)
      else let (res, lk1) = extract_loop snapshot ref (entity (message envelope)) [] lk
           in (map_sum id (map snd) res, lk1))"

subsection \<open>What the resolver computes, without its caches\<close>

definition trip_profile :: "RefData \<Rightarrow> csv_file option \<Rightarrow> string \<Rightarrow> StopTimeEntry list" where
  "trip_profile ref fb t =
     (if select_stop_times ref t \<noteq> [] then select_stop_times ref t
      else case fb of Some f \<Rightarrow> get_profile f t | None \<Rightarrow> [])"

definition route_of_trip :: "RefData \<Rightarrow> string \<Rightarrow> string option" where
  "route_of_trip ref t = (case map_of (dim_trips ref) t of None \<Rightarrow> None | Some r \<Rightarrow> r)"

definition stop_known :: "RefData \<Rightarrow> string \<Rightarrow> bool" where
  "stop_known ref s \<longleftrightarrow> s \<noteq> [] \<and> s \<in> set (dim_stops ref)"

text \<open>The position of a vehicle's current stop in its trip's timetable: the stop must be
  a stop of the reference data, the trip id must not be empty, and the stop must occur in
  the timetable (the first occurrence counts).\<close>

definition current_position ::
  "RefData \<Rightarrow> csv_file option \<Rightarrow> VehiclePayload \<Rightarrow> (nat \<times> StopTimeEntry) option" where
  "current_position ref fb v =
     (case (vp_trip_id v, vp_stop_id v) of
        (Some t, Some s) \<Rightarrow>
          if t \<noteq> [] \<and> stop_known ref s then find_stop 0 (trip_profile ref fb t) s else None
      | _ \<Rightarrow> None)"

text \<open>A cache agrees with a function when every cached value is the function's.\<close>

definition agrees :: "('k \<rightharpoonup> 'v) \<Rightarrow> ('k \<Rightarrow> 'v) \<Rightarrow> bool" where
  "agrees m f \<longleftrightarrow> (\<forall>k v. m k = Some v \<longrightarrow> v = f k)"

definition lookup_ok :: "RefData \<Rightarrow> csv_file option \<Rightarrow> DimLookup \<Rightarrow> bool" where
  "lookup_ok ref fb lk \<longleftrightarrow>
     stop_times_fallback lk = fb
     \<and> agrees (trip_profiles lk) (trip_profile ref fb)
     \<and> agrees (trip_exists lk) (\<lambda>t. map_of (dim_trips ref) t \<noteq> None)
     \<and> agrees (trip_routes lk) (route_of_trip ref)
     \<and> agrees (route_exists lk) (\<lambda>r. r \<in> set (dim_routes ref))
     \<and> agrees (stop_exists lk) (\<lambda>s. s \<in> set (dim_stops ref))"

lemma agrees_empty: "agrees Map.empty f"
  by (simp add: agrees_def)

lemma agrees_upd: "agrees m f \<Longrightarrow> v = f k \<Longrightarrow> agrees (m(k \<mapsto> v)) f"
  by (simp add: agrees_def)

lemma agreesD: "agrees m f \<Longrightarrow> m k = Some v \<Longrightarrow> v = f k"
  by (simp add: agrees_def)

lemma lookup_ok_init: "lookup_ok ref fb (DimLookup_init fb)"
  by (simp add: lookup_ok_def DimLookup_init_def agrees_empty)

lemma ensure_stop_ok:
  assumes "lookup_ok ref fb lk"
  shows "fst (ensure_stop ref s lk) = (truthy s \<and> the s \<in> set (dim_stops ref))"
    and "lookup_ok ref fb (snd (ensure_stop ref s lk))"
  using assms
  by (auto simp: ensure_stop_def lookup_ok_def truthy_def Let_def agrees_upd
      dest: agreesD split: option.splits)

lemma ensure_route_ok:
  assumes "lookup_ok ref fb lk"
  shows "fst (ensure_route ref s lk) = (truthy s \<and> the s \<in> set (dim_routes ref))"
    and "lookup_ok ref fb (snd (ensure_route ref s lk))"
  using assms
  by (auto simp: ensure_route_def lookup_ok_def truthy_def Let_def agrees_upd
      dest: agreesD split: option.splits)

lemma ensure_trip_ok:
  assumes "lookup_ok ref fb lk"
  shows "fst (ensure_trip ref s lk) = (truthy s \<and> map_of (dim_trips ref) (the s) \<noteq> None)"
    and "lookup_ok ref fb (snd (ensure_trip ref s lk))"
  using assms
  by (auto simp: ensure_trip_def lookup_ok_def truthy_def Let_def agrees_upd
      dest: agreesD split: option.splits)

lemma get_route_for_trip_ok:
  assumes "lookup_ok ref fb lk"
  shows "fst (get_route_for_trip ref s lk) = (if truthy s then route_of_trip ref (the s) else None)"
    and "lookup_ok ref fb (snd (get_route_for_trip ref s lk))"
  using assms
  by (auto simp: get_route_for_trip_def lookup_ok_def truthy_def Let_def agrees_upd
      route_of_trip_def dest: agreesD split: option.splits)

lemma load_trip_profile_ok:
  assumes "lookup_ok ref fb lk"
  shows "fst (load_trip_profile ref t lk) = trip_profile ref fb t"
    and "lookup_ok ref fb (snd (load_trip_profile ref t lk))"
  using assms
  by (auto simp: load_trip_profile_def lookup_ok_def Let_def agrees_upd
      trip_profile_def dest: agreesD split: option.splits)

definition adjacent_entry :: "StopTimeEntry list \<Rightarrow> nat \<Rightarrow> bool \<Rightarrow> StopTimeEntry option" where
  "adjacent_entry p i forward =
     (if forward then (if i + 1 < length p then Some (p ! (i + 1)) else None)
      else (if 0 < i \<and> i - 1 < length p then Some (p ! (i - 1)) else None))"

definition emitted_entry :: "RefData \<Rightarrow> StopTimeEntry option \<Rightarrow> StopTimeEntry option" where
  "emitted_entry ref e =
     (case e of None \<Rightarrow> None | Some x \<Rightarrow> if stop_known ref (stop_id x) then Some x else None)"

lemma get_stop_context_ok:
  assumes "lookup_ok ref fb lk"
  shows "fst (get_stop_context ref t s lk) =
           (if truthy t \<and> truthy s then find_stop 0 (trip_profile ref fb (the t)) (the s) else None)"
    and "lookup_ok ref fb (snd (get_stop_context ref t s lk))"
proof -
  let ?r = "load_trip_profile ref (the t) lk"
  have p: "fst ?r = trip_profile ref fb (the t)" and ok: "lookup_ok ref fb (snd ?r)"
    using load_trip_profile_ok [OF assms] by auto
  have ok': "lookup_ok ref fb (snd ?r\<lparr>missing_stop := ms\<rparr>)" for ms
    using ok by (simp add: lookup_ok_def)
  show "fst (get_stop_context ref t s lk) =
           (if truthy t \<and> truthy s then find_stop 0 (trip_profile ref fb (the t)) (the s) else None)"
    using p by (auto simp: get_stop_context_def split_beta Let_def split: option.splits)
  show "lookup_ok ref fb (snd (get_stop_context ref t s lk))"
    using assms ok ok' by (auto simp: get_stop_context_def split_beta Let_def split: option.splits)
qed

lemma get_adjacent_stop_ok:
  assumes "lookup_ok ref fb lk"
  shows "fst (get_adjacent_stop ref t i forward lk) =
           (case t of None \<Rightarrow> None | Some x \<Rightarrow> adjacent_entry (trip_profile ref fb x) i forward)"
    and "lookup_ok ref fb (snd (get_adjacent_stop ref t i forward lk))"
proof -
  show "fst (get_adjacent_stop ref t i forward lk) =
           (case t of None \<Rightarrow> None | Some x \<Rightarrow> adjacent_entry (trip_profile ref fb x) i forward)"
  proof (cases t)
    case None
    then show ?thesis by (simp add: get_adjacent_stop_def)
  next
    case (Some x)
    have p: "fst (load_trip_profile ref x lk) = trip_profile ref fb x"
      using load_trip_profile_ok [OF assms] by auto
    have "i - 1 < length q \<longleftrightarrow> int i - 1 < int (length q)" if "0 < i" for q :: "StopTimeEntry list"
      using that by auto
    then show ?thesis
      using Some p
      by (auto simp: get_adjacent_stop_def split_beta Let_def adjacent_entry_def nat_diff_distrib nat_add_distrib)
  qed
  show "lookup_ok ref fb (snd (get_adjacent_stop ref t i forward lk))"
    using assms load_trip_profile_ok(2) [OF assms]
    by (auto simp: get_adjacent_stop_def split_beta Let_def split: option.splits)
qed


definition adjacent_spec ::
  "RefData \<Rightarrow> csv_file option \<Rightarrow> string option \<Rightarrow> string option
    \<Rightarrow> string option \<times> string option \<times> int option" where
  "adjacent_spec ref fb t cs =
     (case (if truthy cs \<and> truthy t then find_stop 0 (trip_profile ref fb (the t)) (the cs)
            else None) of
        None \<Rightarrow> (None, None, None)
      | Some (i, e) \<Rightarrow>
          let p = trip_profile ref fb (the t);
              pe = emitted_entry ref (adjacent_entry p i False);
              ne = emitted_entry ref (adjacent_entry p i True)
          in (map_option stop_id pe, map_option stop_id ne, map_option stop_sequence ne))"

lemma ensure_stop_Some_ok:
  assumes "lookup_ok ref fb lk"
  shows "fst (ensure_stop ref (Some s) lk) = stop_known ref s"
  using ensure_stop_ok(1) [OF assms, of "Some s"] by (auto simp: truthy_def stop_known_def)

lemma resolve_adjacent_ok:
  assumes "lookup_ok ref fb lk"
  shows "fst (resolve_adjacent ref t cs lk) = adjacent_spec ref fb t cs"
    and "lookup_ok ref fb (snd (resolve_adjacent ref t cs lk))"
proof -
  define c where
    "c = (if truthy cs \<and> truthy t then get_stop_context ref t cs lk else (None, lk))"
  have c1: "fst c = (if truthy cs \<and> truthy t
                     then find_stop 0 (trip_profile ref fb (the t)) (the cs) else None)"
    and ok1: "lookup_ok ref fb (snd c)"
    unfolding c_def using assms get_stop_context_ok [OF assms] by auto
  show "fst (resolve_adjacent ref t cs lk) = adjacent_spec ref fb t cs"
    and "lookup_ok ref fb (snd (resolve_adjacent ref t cs lk))"
  proof (atomize (full), cases "fst c")
    case None
    then have "resolve_adjacent ref t cs lk = ((None, None, None), snd c)"
      unfolding resolve_adjacent_def c_def by (simp add: split_beta)
    then show "fst (resolve_adjacent ref t cs lk) = adjacent_spec ref fb t cs
        \<and> lookup_ok ref fb (snd (resolve_adjacent ref t cs lk))"
      using None c1 ok1 by (simp add: adjacent_spec_def)
  next
    case (Some ie)
    obtain i e where ie: "ie = (i, e)" by (cases ie)
    from Some c1 have tt: "truthy t" by (simp split: if_splits)
    then obtain x where t: "t = Some x" by (auto simp: truthy_def)
    define p where "p = trip_profile ref fb x"
    define a1 where "a1 = get_adjacent_stop ref t i False (snd c)"
    define a2 where "a2 = get_adjacent_stop ref t i True (snd a1)"
    define b1 where
      "b1 = (case fst a1 of
               None \<Rightarrow> (None, snd a2)
             | Some pe \<Rightarrow>
                 (if fst (ensure_stop ref (Some (stop_id pe)) (snd a2))
                  then Some (stop_id pe) else None,
                  snd (ensure_stop ref (Some (stop_id pe)) (snd a2))))"
    define b2 where
      "b2 = (case fst a2 of
               None \<Rightarrow> ((None, None), snd b1)
             | Some ne \<Rightarrow>
                 (if fst (ensure_stop ref (Some (stop_id ne)) (snd b1))
                  then (Some (stop_id ne), Some (stop_sequence ne)) else (None, None),
                  snd (ensure_stop ref (Some (stop_id ne)) (snd b1))))"
    have a1: "fst a1 = adjacent_entry p i False" and oka1: "lookup_ok ref fb (snd a1)"
      unfolding a1_def p_def using get_adjacent_stop_ok [OF ok1] t by auto
    have a2: "fst a2 = adjacent_entry p i True" and oka2: "lookup_ok ref fb (snd a2)"
      unfolding a2_def p_def using get_adjacent_stop_ok [OF oka1] t by auto
    have b1: "fst b1 = map_option stop_id (emitted_entry ref (adjacent_entry p i False))"
      and okb1: "lookup_ok ref fb (snd b1)"
      unfolding b1_def using a1 oka2 ensure_stop_ok(2) [OF oka2]
      by (auto simp: emitted_entry_def ensure_stop_Some_ok [OF oka2] split: option.splits)
    have b2: "fst b2 = (map_option stop_id (emitted_entry ref (adjacent_entry p i True)),
                        map_option stop_sequence (emitted_entry ref (adjacent_entry p i True)))"
      and okb2: "lookup_ok ref fb (snd b2)"
      unfolding b2_def using a2 okb1 ensure_stop_ok(2) [OF okb1]
      by (auto simp: emitted_entry_def ensure_stop_Some_ok [OF okb1] split: option.splits)
    have "resolve_adjacent ref t cs lk = ((fst b1, fst (fst b2), snd (fst b2)), snd b2)"
      using Some ie
      unfolding resolve_adjacent_def resolve_neighbours_def b2_def b1_def a2_def a1_def c_def
      by (simp add: split_beta Let_def split: option.splits)
    then show "fst (resolve_adjacent ref t cs lk) = adjacent_spec ref fb t cs
        \<and> lookup_ok ref fb (snd (resolve_adjacent ref t cs lk))"
      using Some ie c1 b1 b2 okb2 t
      by (simp add: adjacent_spec_def p_def Let_def split: if_splits)
  qed
qed

definition timestamp_raises :: "VehiclePayload \<Rightarrow> bool" where
  "timestamp_raises v \<longleftrightarrow>
     (case vp_timestamp v of
        None \<Rightarrow> False
      | Some n \<Rightarrow> 67768036191676800 \<le> n \<and> n < 2 ^ 63)"

lemma epoch_to_datetime_vehicle:
  "epoch_to_datetime (map_option int (vp_timestamp v)) =
     (if timestamp_raises v then Inl OSError
      else Inr (case vp_timestamp v of
                  None \<Rightarrow> None
                | Some n \<Rightarrow> if n \<le> 253402300799 then Some (int n) else None))"
proof (cases "vp_timestamp v")
  case None
  then show ?thesis by (simp add: epoch_to_datetime_def timestamp_raises_def)
next
  case (Some n)
  have "int n < 2 ^ 63 \<longleftrightarrow> n < 2 ^ 63"
    by (metis of_nat_less_iff of_nat_numeral of_nat_power)
  with Some show ?thesis
    by (simp add: epoch_to_datetime_def timestamp_raises_def from_timestamp_def)
qed

lemma vehicle_record_ok:
  assumes "lookup_ok ref fb lk"
  shows "lookup_ok ref fb (snd (vehicle_record sid ref eid v lk))"
    and "timestamp_raises v \<Longrightarrow> fst (vehicle_record sid ref eid v lk) = Inl OSError"
    and "\<not> timestamp_raises v \<Longrightarrow>
           \<exists>r. fst (vehicle_record sid ref eid v lk) = Inr r \<and> vpr_entity_id r = eid
             \<and> (vpr_previous_stop_id r, vpr_next_stop_id r, vpr_next_stop_sequence r)
                 = adjacent_spec ref fb (vp_trip_id v)
                     (if truthy (vp_stop_id v) \<and> the (vp_stop_id v) \<in> set (dim_stops ref)
                      then vp_stop_id v else None)"
proof -
  define r1 where "r1 = ensure_trip ref (vp_trip_id v) lk"
  define r2 where
    "r2 = (if fst r1 then get_route_for_trip ref (vp_trip_id v) (snd r1) else (None, snd r1))"
  define r3 where
    "r3 = (if truthy (fst r2)
           then (if fst (ensure_route ref (fst r2) (snd r2)) then fst r2 else None,
                 snd (ensure_route ref (fst r2) (snd r2)))
           else (fst r2, snd r2))"
  define r4 where "r4 = ensure_stop ref (vp_stop_id v) (snd r3)"
  define cs where "cs = (if fst r4 then vp_stop_id v else None)"
  define r5 where "r5 = resolve_adjacent ref (vp_trip_id v) cs (snd r4)"
  have ok1: "lookup_ok ref fb (snd r1)"
    unfolding r1_def by (rule ensure_trip_ok(2) [OF assms])
  have ok2: "lookup_ok ref fb (snd r2)"
    unfolding r2_def using ok1 by (simp add: get_route_for_trip_ok(2))
  have ok3: "lookup_ok ref fb (snd r3)"
    unfolding r3_def using ok2 by (simp add: ensure_route_ok(2))
  have ok4: "lookup_ok ref fb (snd r4)"
    unfolding r4_def by (rule ensure_stop_ok(2) [OF ok3])
  have cs: "cs = (if truthy (vp_stop_id v) \<and> the (vp_stop_id v) \<in> set (dim_stops ref)
                  then vp_stop_id v else None)"
    unfolding cs_def r4_def by (simp add: ensure_stop_ok(1) [OF ok3])
  have r5: "fst r5 = adjacent_spec ref fb (vp_trip_id v) cs" and ok5: "lookup_ok ref fb (snd r5)"
    unfolding r5_def using resolve_adjacent_ok [OF ok4] by auto
  have rec: "snd (vehicle_record sid ref eid v lk) = snd r5"
    unfolding vehicle_record_def r5_def cs_def r4_def r3_def r2_def r1_def
    by (simp add: split_beta Let_def)
  show "lookup_ok ref fb (snd (vehicle_record sid ref eid v lk))"
    using ok5 rec by simp
  show "fst (vehicle_record sid ref eid v lk) = Inl OSError" if "timestamp_raises v"
    unfolding vehicle_record_def using that
    by (simp add: split_beta Let_def epoch_to_datetime_vehicle)
  show "\<exists>r. fst (vehicle_record sid ref eid v lk) = Inr r \<and> vpr_entity_id r = eid
             \<and> (vpr_previous_stop_id r, vpr_next_stop_id r, vpr_next_stop_sequence r)
                 = adjacent_spec ref fb (vp_trip_id v)
                     (if truthy (vp_stop_id v) \<and> the (vp_stop_id v) \<in> set (dim_stops ref)
                      then vp_stop_id v else None)"
    if "\<not> timestamp_raises v"
  proof -
    have "\<exists>ts. fst (vehicle_record sid ref eid v lk) =
            Inr \<lparr>vpr_snapshot_id = sid, vpr_entity_id = eid, vpr_vehicle_id = vp_vehicle_id v,
                 vpr_vehicle_label = vp_label v,
                 vpr_trip_id = (if fst r1 then vp_trip_id v else None),
                 vpr_route_id = fst r3, vpr_current_stop_id = cs,
                 vpr_previous_stop_id = fst (fst r5), vpr_next_stop_id = fst (snd (fst r5)),
                 vpr_next_stop_sequence = snd (snd (fst r5)), vpr_status = vp_status v,
                 vpr_vehicle_timestamp_utc = ts\<rparr>"
      unfolding vehicle_record_def r5_def cs_def r4_def r3_def r2_def r1_def using that
      by (simp add: split_beta Let_def epoch_to_datetime_vehicle)
    with r5 cs show ?thesis by auto
  qed
qed

definition adjacent_stops_ok ::
  "RefData \<Rightarrow> csv_file option \<Rightarrow> VehiclePayload \<Rightarrow> VehiclePositionRecord \<Rightarrow> bool" where
  "adjacent_stops_ok ref fb v r \<longleftrightarrow>
     (case current_position ref fb v of
        None \<Rightarrow>
          vpr_previous_stop_id r = None \<and> vpr_next_stop_id r = None
          \<and> vpr_next_stop_sequence r = None
      | Some (i, entry) \<Rightarrow>
          let p = trip_profile ref fb (the (vp_trip_id v)) in
          sorted (map stop_sequence p) \<and> i < length p \<and> p ! i = entry
          \<and> stop_id entry = the (vp_stop_id v)
          \<and> vpr_previous_stop_id r =
              (if 0 < i \<and> stop_known ref (stop_id (p ! (i - 1)))
               then Some (stop_id (p ! (i - 1))) else None)
          \<and> vpr_next_stop_id r =
              (if i + 1 < length p \<and> stop_known ref (stop_id (p ! (i + 1)))
               then Some (stop_id (p ! (i + 1))) else None)
          \<and> vpr_next_stop_sequence r =
              (if i + 1 < length p \<and> stop_known ref (stop_id (p ! (i + 1)))
               then Some (stop_sequence (p ! (i + 1))) else None))"

lemma find_stop_Some:
  "find_stop k p s = Some (i, e) \<Longrightarrow> k \<le> i \<and> i - k < length p \<and> p ! (i - k) = e \<and> stop_id e = s"
proof (induction p arbitrary: k)
  case Nil
  then show ?case by simp
next
  case (Cons a p)
  show ?case
  proof (cases "stop_id a = s")
    case True
    with Cons.prems show ?thesis by simp
  next
    case False
    with Cons.prems have "find_stop (Suc k) p s = Some (i, e)" by simp
    from Cons.IH [OF this] show ?thesis
      by (auto simp: Suc_diff_Suc Suc_le_eq)
  qed
qed

lemma sorted_trip_profile: "sorted (map stop_sequence (trip_profile ref fb t))"
  by (auto simp: trip_profile_def select_stop_times_def get_profile_def
      split: option.splits csv_file.splits)

lemma adjacent_spec_stops_ok:
  assumes "(vpr_previous_stop_id r, vpr_next_stop_id r, vpr_next_stop_sequence r)
           = adjacent_spec ref fb (vp_trip_id v)
               (if truthy (vp_stop_id v) \<and> the (vp_stop_id v) \<in> set (dim_stops ref)
                then vp_stop_id v else None)"
  shows "adjacent_stops_ok ref fb v r"
proof (cases "current_position ref fb v")
  case None
  then have "(if truthy (if truthy (vp_stop_id v) \<and> the (vp_stop_id v) \<in> set (dim_stops ref)
                 then vp_stop_id v else None) \<and> truthy (vp_trip_id v)
              then find_stop 0 (trip_profile ref fb (the (vp_trip_id v)))
                     (the (if truthy (vp_stop_id v) \<and> the (vp_stop_id v) \<in> set (dim_stops ref)
                           then vp_stop_id v else None))
              else None) = None"
    by (auto simp: current_position_def truthy_def stop_known_def split: option.splits if_splits)
  with assms None show ?thesis
    by (simp add: adjacent_spec_def adjacent_stops_ok_def)
next
  case (Some ie)
  obtain i e where ie: "ie = (i, e)" by (cases ie)
  from Some ie obtain t s where ts: "vp_trip_id v = Some t" "vp_stop_id v = Some s"
    "t \<noteq> []" "stop_known ref s" and f: "find_stop 0 (trip_profile ref fb t) s = Some (i, e)"
    by (auto simp: current_position_def split: option.splits if_splits)
  from find_stop_Some [OF f] have i: "i < length (trip_profile ref fb t)"
    "trip_profile ref fb t ! i = e" "stop_id e = s" by auto
  from assms ts f i show ?thesis
    unfolding adjacent_stops_ok_def Some ie
    by (simp add: adjacent_spec_def truthy_def stop_known_def Let_def sorted_trip_profile
        adjacent_entry_def emitted_entry_def)
qed

text \<open>The vehicle payload that decides the row of an entity id: that of the last
  entity of the message with this id and a vehicle payload.\<close>

fun last_vehicle :: "FeedEntity list \<Rightarrow> string \<Rightarrow> VehiclePayload option" where
  "last_vehicle [] k = None"
| "last_vehicle (e # es) k =
     (case last_vehicle es k of
        Some v \<Rightarrow> Some v
      | None \<Rightarrow> if entity_id e = k \<and> k \<noteq> [] then vehicle e else None)"

text \<open>The entities that the loop builds a record for, and among them those whose
  timestamp makes the conversion raise.\<close>

definition vehicle_entity :: "FeedEntity \<Rightarrow> bool" where
  "vehicle_entity e \<longleftrightarrow> vehicle e \<noteq> None \<and> entity_id e \<noteq> []"

definition raising_entity :: "FeedEntity \<Rightarrow> bool" where
  "raising_entity e \<longleftrightarrow>
     entity_id e \<noteq> [] \<and> (case vehicle e of None \<Rightarrow> False | Some v \<Rightarrow> timestamp_raises v)"

lemma last_vehicle_Some:
  "last_vehicle es k = Some v \<Longrightarrow> \<exists>e \<in> set es. vehicle e = Some v \<and> entity_id e = k"
  by (induction es) (auto split: option.splits if_splits)

lemma last_vehicle_entity:
  "e \<in> set es \<Longrightarrow> vehicle_entity e \<Longrightarrow> last_vehicle es (entity_id e) \<noteq> None"
  by (induction es) (auto simp: vehicle_entity_def split: option.splits)

lemma last_vehicle_unique:
  assumes "e \<in> set es" and "vehicle e = Some v" and "entity_id e \<noteq> []"
    and "\<forall>e' \<in> set es. entity_id e' = entity_id e \<longrightarrow> e' = e"
  shows "last_vehicle es (entity_id e) = Some v"
proof -
  from last_vehicle_entity [OF assms(1)] assms(2,3)
  obtain v' where v': "last_vehicle es (entity_id e) = Some v'"
    by (auto simp: vehicle_entity_def)
  from last_vehicle_Some [OF this] assms(4,2) have "v' = v" by auto
  with v' show ?thesis by simp
qed

definition rows_ok ::
  "RefData \<Rightarrow> csv_file option \<Rightarrow> FeedEntity list \<Rightarrow> (string \<rightharpoonup> VehiclePositionRecord)
    \<Rightarrow> (string \<rightharpoonup> VehiclePositionRecord) \<Rightarrow> bool" where
  "rows_ok ref fb es before after \<longleftrightarrow>
     (\<forall>k. case last_vehicle es k of
             None \<Rightarrow> after k = before k
           | Some v \<Rightarrow>
               (\<exists>r. after k = Some r \<and> vpr_entity_id r = k \<and> adjacent_stops_ok ref fb v r))"

lemma extract_loop_raises:
  assumes "lookup_ok ref fb lk" and "\<exists>e \<in> set es. raising_entity e"
  shows "fst (extract_loop sid ref es recs lk) = Inl OSError"
  using assms
proof (induction es arbitrary: recs lk)
  case Nil
  then show ?case by simp
next
  case (Cons e es)
  show ?case
  proof (cases "vehicle_entity e")
    case False
    then have skip: "extract_loop sid ref (e # es) recs lk = extract_loop sid ref es recs lk"
      by (auto simp: vehicle_entity_def split: option.splits)
    from False have "\<not> raising_entity e"
      by (auto simp: vehicle_entity_def raising_entity_def split: option.splits)
    with Cons.prems(2) have "\<exists>e \<in> set es. raising_entity e" by auto
    from Cons.IH [OF Cons.prems(1) this] skip show ?thesis by simp
  next
    case True
    then obtain v where v: "vehicle e = Some v" and i: "entity_id e \<noteq> []"
      by (auto simp: vehicle_entity_def)
    let ?res = "vehicle_record sid ref (entity_id e) v lk"
    note vr = vehicle_record_ok [OF Cons.prems(1), where sid = sid and eid = "entity_id e" and v = v]
    show ?thesis
    proof (cases "timestamp_raises v")
      case True
      from vr(2) [OF True] v i show ?thesis by (simp add: split_beta)
    next
      case False
      from vr(3) [OF False] obtain r where r: "fst ?res = Inr r" by blast
      from False v have "\<not> raising_entity e" by (simp add: raising_entity_def)
      with Cons.prems(2) have "\<exists>e \<in> set es. raising_entity e" by auto
      from Cons.IH [OF vr(1) this] r v i show ?thesis by (simp add: split_beta)
    qed
  qed
qed

lemma extract_loop_ok:
  assumes "lookup_ok ref fb lk" and "\<not> (\<exists>e \<in> set es. raising_entity e)"
  shows "\<exists>recs'. fst (extract_loop sid ref es recs lk) = Inr recs'
           \<and> rows_ok ref fb es (map_of recs) (map_of recs')
           \<and> (distinct (map fst recs) \<longrightarrow> distinct (map fst recs'))"
  using assms
proof (induction es arbitrary: recs lk)
  case Nil
  then show ?case by (simp add: rows_ok_def)
next
  case (Cons e es)
  from Cons.prems(2) have rest: "\<not> (\<exists>e \<in> set es. raising_entity e)" by simp
  show ?case
  proof (cases "vehicle_entity e")
    case False
    then have skip: "extract_loop sid ref (e # es) recs lk = extract_loop sid ref es recs lk"
      by (auto simp: vehicle_entity_def split: option.splits)
    from False have l: "last_vehicle (e # es) k = last_vehicle es k" for k
      by (auto simp: vehicle_entity_def split: option.splits)
    from Cons.IH [OF Cons.prems(1) rest, of recs] show ?thesis
      unfolding skip rows_ok_def l .
  next
    case True
    then obtain v where v: "vehicle e = Some v" and i: "entity_id e \<noteq> []"
      by (auto simp: vehicle_entity_def)
    let ?res = "vehicle_record sid ref (entity_id e) v lk"
    note vr = vehicle_record_ok [OF Cons.prems(1), where sid = sid and eid = "entity_id e" and v = v]
    from Cons.prems(2) v i have "\<not> timestamp_raises v" by (simp add: raising_entity_def)
    from vr(3) [OF this] obtain r where r: "fst ?res = Inr r" "vpr_entity_id r = entity_id e"
      and a: "(vpr_previous_stop_id r, vpr_next_stop_id r, vpr_next_stop_sequence r)
                 = adjacent_spec ref fb (vp_trip_id v)
                     (if truthy (vp_stop_id v) \<and> the (vp_stop_id v) \<in> set (dim_stops ref)
                      then vp_stop_id v else None)"
      by blast
    have ok: "adjacent_stops_ok ref fb v r"
      by (rule adjacent_spec_stops_ok [OF a])
    let ?recs1 = "AList.update (entity_id e) r recs"
    have step: "extract_loop sid ref (e # es) recs lk = extract_loop sid ref es ?recs1 (snd ?res)"
      using v i r(1) by (simp add: split_beta)
    from Cons.IH [OF vr(1) rest, of ?recs1] obtain recs' where
      res: "fst (extract_loop sid ref es ?recs1 (snd ?res)) = Inr recs'"
      and rows: "rows_ok ref fb es (map_of ?recs1) (map_of recs')"
      and d: "distinct (map fst ?recs1) \<longrightarrow> distinct (map fst recs')"
      by blast
    have "rows_ok ref fb (e # es) (map_of recs) (map_of recs')"
      unfolding rows_ok_def
    proof
      fix k
      from rows have k: "case last_vehicle es k of
             None \<Rightarrow> map_of recs' k = map_of ?recs1 k
           | Some v \<Rightarrow>
               (\<exists>r. map_of recs' k = Some r \<and> vpr_entity_id r = k \<and> adjacent_stops_ok ref fb v r)"
        by (simp add: rows_ok_def)
      show "case last_vehicle (e # es) k of
             None \<Rightarrow> map_of recs' k = map_of recs k
           | Some v \<Rightarrow>
               (\<exists>r. map_of recs' k = Some r \<and> vpr_entity_id r = k \<and> adjacent_stops_ok ref fb v r)"
      proof (cases "last_vehicle es k")
        case (Some w)
        with k show ?thesis by simp
      next
        case None
        with k have eq: "map_of recs' k = map_of ?recs1 k" by simp
        show ?thesis
        proof (cases "entity_id e = k")
          case True
          with None v i r(2) ok eq show ?thesis by (simp add: update_conv')
        next
          case False
          with None eq show ?thesis by (simp add: update_conv')
        qed
      qed
    qed
    with res d show ?thesis
      unfolding step by (simp add: distinct_update)
  qed
qed

subsection \<open>A timetable from the CSV fallback\<close>


definition timetable_csv :: csv_file where
  "timetable_csv =
     CsvFile
       [\<lparr>csv_trip_id = Some ''T1'', csv_stop_sequence = Some 10, csv_stop_id = Some ''51100'',
         csv_arrival_seconds = Some 29400, csv_departure_seconds = Some 29460\<rparr>,
        \<lparr>csv_trip_id = Some ''T1'', csv_stop_sequence = Some 8, csv_stop_id = Some ''43000'',
         csv_arrival_seconds = Some 28800, csv_departure_seconds = Some 28860\<rparr>,
        \<lparr>csv_trip_id = Some ''T2'', csv_stop_sequence = Some 1, csv_stop_id = Some ''43000'',
         csv_arrival_seconds = None, csv_departure_seconds = None\<rparr>,
        \<lparr>csv_trip_id = Some ''T1'', csv_stop_sequence = Some 9, csv_stop_id = Some ''51003'',
         csv_arrival_seconds = Some 29100, csv_departure_seconds = Some 29160\<rparr>]"

definition ref_without_43000 :: RefData where
  "ref_without_43000 =
     \<lparr>dim_trips = [], dim_routes = [], dim_stops = [''51003'', ''51100''], dim_stop_times = []\<rparr>"

definition ref_all_stops :: RefData where
  "ref_all_stops =
     \<lparr>dim_trips = [], dim_routes = [], dim_stops = [''43000'', ''51003'', ''51100''],
      dim_stop_times = []\<rparr>"

definition vehicle_at_51003 :: VehiclePayload where
  "vehicle_at_51003 =
     \<lparr>vp_trip_id = Some ''T1'', vp_stop_id = Some ''51003'', vp_vehicle_id = Some ''447'',
      vp_label = Some ''R1-447'', vp_status = Some ''STOPPED_AT'', vp_timestamp = Some 1700000000\<rparr>"

definition vehicle_envelope :: FeedEnvelope where
  "vehicle_envelope =
     \<lparr>url = ''https://example.com/vehicle_positions.pb'', feed_type = VEHICLE_POSITIONS,
      message = \<lparr>header_ts = 0, entity = [mk_entity ''V1'' (Some vehicle_at_51003) None None]\<rparr>,
      header_timestamp = None\<rparr>"


definition row_at_51003 :: VehiclePositionRecord where
  "row_at_51003 =
     \<lparr>vpr_snapshot_id = 1, vpr_entity_id = ''V1'', vpr_vehicle_id = Some ''447'',
      vpr_vehicle_label = Some ''R1-447'', vpr_trip_id = None, vpr_route_id = None,
      vpr_current_stop_id = Some ''51003'', vpr_previous_stop_id = Some ''43000'',
      vpr_next_stop_id = Some ''51100'', vpr_next_stop_sequence = Some 10,
      vpr_status = Some ''STOPPED_AT'', vpr_vehicle_timestamp_utc = Some 1700000000\<rparr>"

lemmas lookup_defs =
  ensure_trip_def get_route_for_trip_def load_trip_profile_def get_stop_context_def
  get_adjacent_stop_def ensure_route_def ensure_stop_def DimLookup_init_def truthy_def
  select_stop_times_def get_profile_def List.map_filter_def csv_entry_def

lemmas extract_defs =
  extract_vehicle_position_rows_def mk_entity_def vehicle_record_def resolve_adjacent_def
  resolve_neighbours_def epoch_to_datetime_def epoch_to_datetime_int_def from_timestamp_def Let_def

text \<open>
  Claim C5, as stated, fails where the timetable comes from the CSV fallback and a
  neighbouring stop is not a stop of the reference data: trip T1 runs 43000 (sequence 8),
  51003 (9), 51100 (10), the vehicle stands at 51003, which is position 1 of the sorted
  timetable, and stop 43000 is missing from \<^verbatim>\<open>dim_stops\<close>. The entry before the
  current one is 43000, yet the emitted previous stop is absent.
\<close>

theorem previous_stop_unknown_counterexample:
  "map stop_id (trip_profile ref_without_43000 (Some timetable_csv) ''T1'')
     = [''43000'', ''51003'', ''51100'']
   \<and> map_option fst (current_position ref_without_43000 (Some timetable_csv) vehicle_at_51003)
     = Some 1
   \<and> map_sum id (map vpr_previous_stop_id)
       (fst (extract_vehicle_position_rows 1 ref_without_43000 vehicle_envelope
               (DimLookup_init (Some timetable_csv)))) = Inr [None]"
  by (simp add: extract_defs lookup_defs vehicle_envelope_def vehicle_at_51003_def
      ref_without_43000_def timetable_csv_def trip_profile_def current_position_def
      stop_known_def)

text \<open>
  Claim C5, amended. Resolving the stops raises nothing (the resolver's queries being
  answered): the extraction raises only where the conversion of a vehicle's timestamp
  does, that is, exactly when some entity with a vehicle payload and a non-empty id
  carries a timestamp from 67768036191676800 to \<open>2\<^sup>6\<^sup>3 - 1\<close>, and then it raises
  \<^verbatim>\<open>OSError\<close> and returns no row. Otherwise it returns
  its rows, one for each entity id (no id twice), and every entity with a vehicle payload
  and a non-empty id has the row with its id. The row of an id is built from the last
  entity of the message with that id and a vehicle payload (the entity itself when no
  other has its id), and for the payload of that entity: when its current stop is a stop
  of the reference data and occurs in its trip's timetable (the rows of the reference
  storage ordered by stop sequence, or, when there are none, the rows of the CSV
  fallback sorted by stop sequence), the emitted previous stop is the entry just before
  that position and the emitted next stop and next stop sequence are the entry just
  after it, each only if such an entry exists and its stop is a stop of the reference
  data, and absent otherwise; when the current stop has no such position, previous stop,
  next stop and next stop sequence are absent.
\<close>

theorem extract_vehicle_position_rows_adjacent:
  assumes "lookup_ok ref fb lk"
  shows "if \<exists>e \<in> set (entity (message envelope)). raising_entity e
         then fst (extract_vehicle_position_rows sid ref envelope lk) = Inl OSError
         else \<exists>rows.
           fst (extract_vehicle_position_rows sid ref envelope lk) = Inr rows
           \<and> distinct (map vpr_entity_id rows)
           \<and> (\<forall>e \<in> set (entity (message envelope)).
                 vehicle_entity e \<longrightarrow> (\<exists>r \<in> set rows. vpr_entity_id r = entity_id e))
           \<and> (\<forall>r \<in> set rows.
                 \<exists>v. last_vehicle (entity (message envelope)) (vpr_entity_id r) = Some v
                   \<and> adjacent_stops_ok ref fb v r)"
proof (cases "\<exists>e \<in> set (entity (message envelope)). raising_entity e")
  case True
  then have "entity (message envelope) \<noteq> []" by auto
  with extract_loop_raises [OF assms True, of sid "[]"] True show ?thesis
    by (simp add: extract_vehicle_position_rows_def split_beta)
next
  case False
  let ?es = "entity (message envelope)"
  from extract_loop_ok [OF assms False, of sid "[]"] obtain recs where
    res: "fst (extract_loop sid ref ?es [] lk) = Inr recs"
    and rows: "rows_ok ref fb ?es Map.empty (map_of recs)"
    and d: "distinct (map fst recs)"
    by auto
  have key: "\<exists>v. last_vehicle ?es (fst kr) = Some v \<and> vpr_entity_id (snd kr) = fst kr
               \<and> adjacent_stops_ok ref fb v (snd kr)" if "kr \<in> set recs" for kr
  proof -
    from that d have m: "map_of recs (fst kr) = Some (snd kr)" by simp
    from rows have "case last_vehicle ?es (fst kr) of
             None \<Rightarrow> map_of recs (fst kr) = None
           | Some v \<Rightarrow>
               (\<exists>r. map_of recs (fst kr) = Some r \<and> vpr_entity_id r = fst kr
                  \<and> adjacent_stops_ok ref fb v r)"
      by (simp add: rows_ok_def)
    with m show ?thesis by (cases "last_vehicle ?es (fst kr)") auto
  qed
  have "map vpr_entity_id (map snd recs) = map fst recs"
    using key by (induction recs) auto
  with d have ids: "distinct (map vpr_entity_id (map snd recs))" by (simp only:)
  have every: "\<exists>r \<in> set (map snd recs). vpr_entity_id r = entity_id e"
    if "e \<in> set ?es" "vehicle_entity e" for e
  proof -
    from last_vehicle_entity [OF that] obtain v where "last_vehicle ?es (entity_id e) = Some v"
      by auto
    with rows obtain r where "map_of recs (entity_id e) = Some r" "vpr_entity_id r = entity_id e"
      by (fastforce simp: rows_ok_def split: option.splits)
    then show ?thesis using map_of_SomeD [of recs "entity_id e" r] by force
  qed
  have each: "\<exists>v. last_vehicle ?es (vpr_entity_id r) = Some v \<and> adjacent_stops_ok ref fb v r"
    if "r \<in> set (map snd recs)" for r
    using that key by fastforce
  show ?thesis
  proof (cases "?es = []")
    case True
    then show ?thesis by (simp add: extract_vehicle_position_rows_def)
  next
    case ne: False
    then have "fst (extract_vehicle_position_rows sid ref envelope lk) = Inr (map snd recs)"
      using res by (simp add: extract_vehicle_position_rows_def split_beta)
    with False ids every each show ?thesis by (simp only: if_False) blast
  qed
qed

theorem extract_vehicle_position_rows_adjacent_witness:
  "lookup_ok ref_all_stops (Some timetable_csv) (DimLookup_init (Some timetable_csv))
   \<and> \<not> list_ex raising_entity (entity (message vehicle_envelope))
   \<and> list_all vehicle_entity (entity (message vehicle_envelope))
   \<and> fst (extract_vehicle_position_rows 1 ref_all_stops vehicle_envelope
            (DimLookup_init (Some timetable_csv))) = Inr [row_at_51003]
   \<and> last_vehicle (entity (message vehicle_envelope)) (vpr_entity_id row_at_51003)
       = Some vehicle_at_51003
   \<and> adjacent_stops_ok ref_all_stops (Some timetable_csv) vehicle_at_51003 row_at_51003"
proof -
  have ok: "lookup_ok ref_all_stops (Some timetable_csv) (DimLookup_init (Some timetable_csv))"
    by (rule lookup_ok_init)
  have nr: "\<not> (\<exists>e \<in> set (entity (message vehicle_envelope)). raising_entity e)"
    by (simp add: vehicle_envelope_def mk_entity_def raising_entity_def timestamp_raises_def
        vehicle_at_51003_def)
  have ve: "list_all vehicle_entity (entity (message vehicle_envelope))"
    by (simp add: vehicle_envelope_def mk_entity_def vehicle_entity_def)
  have rows: "fst (extract_vehicle_position_rows 1 ref_all_stops vehicle_envelope
            (DimLookup_init (Some timetable_csv))) = Inr [row_at_51003]"
    by (simp add: extract_defs lookup_defs vehicle_envelope_def vehicle_at_51003_def
        ref_all_stops_def timetable_csv_def row_at_51003_def)
  have l: "last_vehicle (entity (message vehicle_envelope)) (vpr_entity_id row_at_51003)
       = Some vehicle_at_51003"
    by (simp add: vehicle_envelope_def mk_entity_def row_at_51003_def)
  from extract_vehicle_position_rows_adjacent [OF ok, of vehicle_envelope 1] nr rows l
  have "adjacent_stops_ok ref_all_stops (Some timetable_csv) vehicle_at_51003 row_at_51003"
    by auto
  with ok nr ve rows l show ?thesis by (simp only: list_ex_iff) blast
qed

text \<open>The timestamp 67768036191676800 in a vehicle entity: the extraction raises.\<close>

lemma extract_vehicle_position_rows_raises:
  "fst (extract_vehicle_position_rows 1 ref_all_stops
          (vehicle_envelope\<lparr>message :=
             \<lparr>header_ts = 0,
              entity = [mk_entity ''V1''
                          (Some (vehicle_at_51003\<lparr>vp_timestamp := Some 67768036191676800\<rparr>))
                          None None]\<rparr>\<rparr>)
          (DimLookup_init (Some timetable_csv))) = Inl OSError"
  by (simp add: extract_defs lookup_defs vehicle_envelope_def vehicle_at_51003_def
      ref_all_stops_def timetable_csv_def)

subsection \<open>The missing sets of the resolver\<close>












section \<open>Output storage and the statements that write it\<close>

text \<open>
  The tables of \<^verbatim>\<open>ensure_schema\<close> that a cycle writes, each a list of rows, with the
  reference tables beside them. Instants are epoch seconds. The five delay columns of the
  delay and Rodalies tables are one \<^verbatim>\<open>TripDelaySnapshot\<close>.
\<close>

record SnapshotRow =
  sn_snapshot_id :: nat
  sn_polled_at_utc :: nat
  sn_vehicle_feed_timestamp_utc :: "int option"
  sn_trip_feed_timestamp_utc :: "int option"
  sn_alert_feed_timestamp_utc :: "int option"

record CursorRow =
  last_header_timestamp :: nat
  last_snapshot_id :: nat

record TripDelaySnapshot =
  arrival_delay_seconds :: "int option"
  departure_delay_seconds :: "int option"
  schedule_relationship :: "string option"
  predicted_arrival_utc :: "int option"
  predicted_departure_utc :: "int option"

record TripDelayRow =
  td_snapshot_id :: nat
  td_trip_id :: string
  td_stop_id :: string
  td_stop_sequence :: "int option"
  td_scheduled_arrival_seconds :: "int option"
  td_scheduled_departure_seconds :: "int option"
  td_delay :: TripDelaySnapshot

record AlertRow =
  ar_snapshot_id :: nat
  ar_alert_id :: string
  ar_language :: string
  ar_message :: "string option"
  ar_effect :: "string option"
  ar_cause :: "string option"
  ar_active_start_utc :: "int option"
  ar_active_end_utc :: "int option"
  ar_created_at_utc :: "int option"

record RodaliesRow =
  rr_position :: VehiclePositionRecord
  rr_delay :: TripDelaySnapshot
  rr_trip_update_timestamp_utc :: "int option"

record HistoryRow =
  hr_vehicle_key :: string
  hr_row :: RodaliesRow
  hr_polled_at_utc :: nat

record CurrentRow =
  cr_row :: RodaliesRow
  cr_polled_at_utc :: nat
  cr_updated_at :: nat

type_synonym AlertChildRow = "nat \<times> string \<times> string"

type_synonym AlertPeriodRow = "(nat \<times> string \<times> nat) \<times> int option \<times> int option"

record Database =
  ref_data :: RefData
  rt_snapshots :: "SnapshotRow list"
  rt_feed_cursors :: "(FeedType \<times> CursorRow) list"
  rt_vehicle_positions :: "VehiclePositionRecord list"
  rt_rodalies_vehicle_positions :: "RodaliesRow list"
  rt_rodalies_vehicle_current :: "(string \<times> CurrentRow) list"
  rt_rodalies_vehicle_history :: "HistoryRow list"
  rt_trip_delays :: "TripDelayRow list"
  rt_alerts :: "AlertRow list"
  rt_alert_routes :: "AlertChildRow list"
  rt_alert_stops :: "AlertChildRow list"
  rt_alert_trips :: "AlertChildRow list"
  rt_alert_active_periods :: "AlertPeriodRow list"

text \<open>
  The write statements of a cycle. Any of them can fail for reasons outside the program
  (the server, the network, a constraint other than a primary key): \<open>fails\<close> says which
  do in the cycle at hand, and such a statement raises \<open>OperationalError\<close>.
\<close>

datatype Stmt =
    S_insert_snapshot
  | S_insert_trip_delays
  | S_insert_alerts
  | S_insert_alert_routes
  | S_insert_alert_stops
  | S_insert_alert_trips
  | S_insert_alert_active_periods
  | S_insert_vehicle_positions
  | S_insert_rodalies_positions
  | S_insert_rodalies_history
  | S_upsert_rodalies_current
  | S_prune_history
  | S_prune_current
  | S_update_feed_cursor FeedType
  | S_commit

text \<open>
  A batch of plain \<^verbatim>\<open>INSERT\<close>s into a table with a primary key: the rows go in one
  after the other, and the first row whose key is already in the table raises.
\<close>

fun insert_rows :: "('r \<Rightarrow> 'k) \<Rightarrow> 'r list \<Rightarrow> 'r list \<Rightarrow> exn option \<times> 'r list" where
  "insert_rows key [] table = (None, table)"
| "insert_rows key (r # rs) table =
     (if key r \<in> key ` set table then (Some UniqueViolation, table)
      else insert_rows key rs (table @ [r]))"

text \<open>The same batch with \<^verbatim>\<open>ON CONFLICT DO NOTHING\<close>: a row whose key is already
  in the table is skipped.\<close>

fun insert_rows_do_nothing :: "('r \<Rightarrow> 'k) \<Rightarrow> 'r list \<Rightarrow> 'r list \<Rightarrow> 'r list" where
  "insert_rows_do_nothing key [] table = table"
| "insert_rows_do_nothing key (r # rs) table =
     insert_rows_do_nothing key rs (if key r \<in> key ` set table then table else table @ [r])"

definition py_or :: "string option \<Rightarrow> string option \<Rightarrow> string option" where
  "py_or a b = (if truthy a then a else b)"

section \<open>TripDelayWriter: \<^verbatim>\<open>store_trip_delays\<close>\<close>

definition td_key :: "TripDelayRow \<Rightarrow> nat \<times> string \<times> string" where
  "td_key r = (td_snapshot_id r, td_trip_id r, td_stop_id r)"

text \<open>The loop over the stop time updates of one trip update, whose trip id has passed
  \<^verbatim>\<open>ensure_trip\<close>. \<^verbatim>\<open>rows_by_key\<close> is a dictionary; \<^verbatim>\<open>delay_lookup\<close> gets
  the same keys with the delay columns of the same rows, so it is read off the rows at
  the end.\<close>

fun stop_updates_loop ::
  "nat \<Rightarrow> RefData \<Rightarrow> TripUpdatePayload \<Rightarrow> StopTimeUpdate list
    \<Rightarrow> ((string \<times> string) \<times> TripDelayRow) list \<Rightarrow> DimLookup
    \<Rightarrow> (exn + ((string \<times> string) \<times> TripDelayRow) list) \<times> DimLookup" where
  "stop_updates_loop snapshot ref tu [] rows lk = (Inr rows, lk)"
| "stop_updates_loop snapshot ref tu (su # sus) rows lk =
     (let (stop_ok, lk1) = ensure_stop ref (stu_stop_id su) lk in
      if \<not> stop_ok then stop_updates_loop snapshot ref tu sus rows lk1
      else
        let (context, lk2) = get_stop_context ref (tu_trip_id tu) (stu_stop_id su) lk1 in
        case epoch_to_datetime (stu_arrival_time su) of
          Inl exc \<Rightarrow> (Inl exc, lk2)
        | Inr predicted_arrival \<Rightarrow>
            (case epoch_to_datetime (stu_departure_time su) of
               Inl exc \<Rightarrow> (Inl exc, lk2)
             | Inr predicted_departure \<Rightarrow>
                 let row = \<lparr>td_snapshot_id = snapshot,
                            td_trip_id = the (tu_trip_id tu),
                            td_stop_id = the (stu_stop_id su),
                            td_stop_sequence = map_option (\<lambda>c. stop_sequence (snd c)) context,
                            td_scheduled_arrival_seconds =
                              Option.bind context (\<lambda>c. arrival_seconds (snd c)),
                            td_scheduled_departure_seconds =
                              Option.bind context (\<lambda>c. departure_seconds (snd c)),
                            td_delay =
                              \<lparr>arrival_delay_seconds = stu_arrival_delay su,
                               departure_delay_seconds = stu_departure_delay su,
                               schedule_relationship =
                                 py_or (stu_schedule_relationship su)
                                   (tu_schedule_relationship tu),
                               predicted_arrival_utc = predicted_arrival,
                               predicted_departure_utc = predicted_departure\<rparr>\<rparr>
                 in stop_updates_loop snapshot ref tu sus
                      (AList.update (the (tu_trip_id tu), the (stu_stop_id su)) row rows) lk2))"

fun trip_delays_loop ::
  "nat \<Rightarrow> RefData \<Rightarrow> FeedEntity list \<Rightarrow> ((string \<times> string) \<times> TripDelayRow) list \<Rightarrow> DimLookup
    \<Rightarrow> (exn + ((string \<times> string) \<times> TripDelayRow) list) \<times> DimLookup" where
  "trip_delays_loop snapshot ref [] rows lk = (Inr rows, lk)"
| "trip_delays_loop snapshot ref (e # es) rows lk =
     (case trip_update e of
        None \<Rightarrow> trip_delays_loop snapshot ref es rows lk
      | Some tu \<Rightarrow>
          let (trip_ok, lk1) = ensure_trip ref (tu_trip_id tu) lk in
          if \<not> trip_ok then trip_delays_loop snapshot ref es rows lk1
          else
            let (res, lk2) =
                  stop_updates_loop snapshot ref tu (tu_stop_time_update tu) rows lk1
            in case res of
                 Inl exc \<Rightarrow> (Inl exc, lk2)
               | Inr rows1 \<Rightarrow> trip_delays_loop snapshot ref es rows1 lk2)"

type_synonym DelayLookup = "((string \<times> string) \<times> TripDelaySnapshot) list"

definition store_trip_delays ::
  "(Stmt \<Rightarrow> bool) \<Rightarrow> nat \<Rightarrow> FeedEnvelope \<Rightarrow> DimLookup \<Rightarrow> Database
    \<Rightarrow> (exn + nat \<times> DelayLookup) \<times> DimLookup \<times> Database" where
  "store_trip_delays fails snapshot envelope lk db =
     (if entity (message envelope) = [] then (Inr (0, []), lk, db)
      else
        let (res, lk1) =
              trip_delays_loop snapshot (ref_data db) (entity (message envelope)) [] lk
        in case res of
             Inl exc \<Rightarrow> (Inl exc, lk1, db)
           | Inr rows \<Rightarrow>
               if rows = [] then (Inr (0, []), lk1, db)
               else if fails S_insert_trip_delays then (Inl OperationalError, lk1, db)
               else
                 let (err, table) = insert_rows td_key (map snd rows) (rt_trip_delays db);
                     db1 = db\<lparr>rt_trip_delays := table\<rparr>
                 in case err of
                      Some e \<Rightarrow> (Inl e, lk1, db1)
                    | None \<Rightarrow>
                        (Inr (length rows, map (\<lambda>kr. (fst kr, td_delay (snd kr))) rows),
                         lk1, db1))"

section \<open>AlertWriter: \<^verbatim>\<open>store_alerts\<close>\<close>

text \<open>
  What the loop over the alert entities collects: \<^verbatim>\<open>base_rows\<close> is a dictionary
  keyed by alert id and language, \<^verbatim>\<open>route_rows\<close>, \<^verbatim>\<open>stop_rows\<close> and
  \<^verbatim>\<open>trip_rows\<close> are sets of pairs (lists without repetition; the order in which
  Python walks a set is not fixed, and the tables do not depend on it but for the order of
  their rows), \<^verbatim>\<open>period_rows\<close> is a list.
\<close>

record AlertAcc =
  base_rows :: "((string \<times> string) \<times> AlertRow) list"
  route_rows :: "(string \<times> string) list"
  stop_rows :: "(string \<times> string) list"
  trip_rows :: "(string \<times> string) list"
  period_rows :: "AlertPeriodRow list"

definition ar_key :: "AlertRow \<Rightarrow> nat \<times> string \<times> string" where
  "ar_key r = (ar_snapshot_id r, ar_alert_id r, ar_language r)"

fun informed_loop ::
  "RefData \<Rightarrow> string \<Rightarrow> InformedEntity list \<Rightarrow> AlertAcc \<Rightarrow> DimLookup \<Rightarrow> AlertAcc \<times> DimLookup" where
  "informed_loop ref alert_id [] acc lk = (acc, lk)"
| "informed_loop ref alert_id (informed # rest) acc lk =
     (let (route_ok, lk1) = ensure_route ref (ie_route_id informed) lk;
          acc1 = (if route_ok
                  then acc\<lparr>route_rows :=
                         List.insert (alert_id, the (ie_route_id informed)) (route_rows acc)\<rparr>
                  else acc);
          (stop_ok, lk2) = ensure_stop ref (ie_stop_id informed) lk1;
          acc2 = (if stop_ok
                  then acc1\<lparr>stop_rows :=
                         List.insert (alert_id, the (ie_stop_id informed)) (stop_rows acc1)\<rparr>
                  else acc1);
          (trip_ok, lk3) = ensure_trip ref (ie_trip_id informed) lk2;
          acc3 = (if trip_ok
                  then acc2\<lparr>trip_rows :=
                         List.insert (alert_id, the (ie_trip_id informed)) (trip_rows acc2)\<rparr>
                  else acc2)
      in informed_loop ref alert_id rest acc3 lk3)"

definition translations_of :: "AlertPayload \<Rightarrow> Translation list" where
  "translations_of al =
     (if al_translation al = [] then [\<lparr>tr_language = Some ''und'', tr_text = None\<rparr>]
      else al_translation al)"

definition language_of :: "Translation \<Rightarrow> string" where
  "language_of tr = (if truthy (tr_language tr) then the (tr_language tr) else ''und'')"

text \<open>A list comprehension over \<^verbatim>\<open>_epoch_to_datetime\<close>: the first conversion that
  raises ends it.\<close>

fun epoch_list :: "nat option list \<Rightarrow> exn + int option list" where
  "epoch_list [] = Inr []"
| "epoch_list (v # vs) =
     (case epoch_to_datetime (map_option int v) of
        Inl exc \<Rightarrow> Inl exc
      | Inr t \<Rightarrow> (case epoch_list vs of Inl exc \<Rightarrow> Inl exc | Inr ts \<Rightarrow> Inr (t # ts)))"

text \<open>\<^verbatim>\<open>min((ts for ts in period_starts if ts), default=header_dt)\<close> and
  \<^verbatim>\<open>max((ts for ts in period_ends if ts), default=None)\<close>; an instant is never false.\<close>

definition aggregate_start :: "int option \<Rightarrow> int option list \<Rightarrow> int option" where
  "aggregate_start header_dt period_starts =
     (case List.map_filter id period_starts of
        [] \<Rightarrow> header_dt
      | x # xs \<Rightarrow> Some (fold min xs x))"

definition aggregate_end :: "int option list \<Rightarrow> int option" where
  "aggregate_end period_ends =
     (case List.map_filter id period_ends of
        [] \<Rightarrow> None
      | x # xs \<Rightarrow> Some (fold max xs x))"

text \<open>The rows of one alert entity. The starts and the ends of the active periods are
  converted first, all starts and then all ends; the loop over the periods converts them
  once more, to the same instants.\<close>

definition alert_rows ::
  "nat \<Rightarrow> int option \<Rightarrow> string \<Rightarrow> AlertPayload \<Rightarrow> AlertAcc \<Rightarrow> exn + AlertAcc" where
  "alert_rows snapshot header_dt alert_id al acc =
     (case epoch_list (map ap_start (al_active_period al)) of
        Inl exc \<Rightarrow> Inl exc
      | Inr period_starts \<Rightarrow>
          (case epoch_list (map ap_end (al_active_period al)) of
             Inl exc \<Rightarrow> Inl exc
           | Inr period_ends \<Rightarrow>
               Inr (acc\<lparr>period_rows :=
                          period_rows acc @
                            map (\<lambda>ip. ((snapshot, alert_id, fst ip), snd ip))
                              (enumerate 0 (zip period_starts period_ends)),
                        base_rows :=
                          fold (\<lambda>tr rows.
                                  AList.update (alert_id, language_of tr)
                                    \<lparr>ar_snapshot_id = snapshot, ar_alert_id = alert_id,
                                     ar_language = language_of tr, ar_message = tr_text tr,
                                     ar_effect = al_effect al, ar_cause = al_cause al,
                                     ar_active_start_utc =
                                       aggregate_start header_dt period_starts,
                                     ar_active_end_utc = aggregate_end period_ends,
                                     ar_created_at_utc = header_dt\<rparr> rows)
                            (translations_of al) (base_rows acc)\<rparr>)))"

fun alerts_loop ::
  "nat \<Rightarrow> RefData \<Rightarrow> int option \<Rightarrow> FeedEntity list \<Rightarrow> AlertAcc \<Rightarrow> DimLookup
    \<Rightarrow> (exn + AlertAcc) \<times> DimLookup" where
  "alerts_loop snapshot ref header_dt [] acc lk = (Inr acc, lk)"
| "alerts_loop snapshot ref header_dt (e # es) acc lk =
     (case alert e of
        None \<Rightarrow> alerts_loop snapshot ref header_dt es acc lk
      | Some al \<Rightarrow>
          if entity_id e = [] then alerts_loop snapshot ref header_dt es acc lk
          else
            case alert_rows snapshot header_dt (entity_id e) al acc of
              Inl exc \<Rightarrow> (Inl exc, lk)
            | Inr acc1 \<Rightarrow>
                let (acc2, lk1) =
                      informed_loop ref (entity_id e) (al_informed_entity al) acc1 lk
                in alerts_loop snapshot ref header_dt es acc2 lk1)"

text \<open>The four batches of child rows, each run only when it has rows, each with
  \<^verbatim>\<open>ON CONFLICT DO NOTHING\<close> on the table's primary key: the whole row for routes,
  stops and trips, and snapshot, alert id and period index for active periods.\<close>

definition child_rows :: "nat \<Rightarrow> (string \<times> string) list \<Rightarrow> AlertChildRow list" where
  "child_rows snapshot pairs = map (\<lambda>p. (snapshot, fst p, snd p)) pairs"

definition insert_alert_routes ::
  "(Stmt \<Rightarrow> bool) \<Rightarrow> nat \<Rightarrow> AlertAcc \<Rightarrow> Database \<Rightarrow> exn option \<times> Database" where
  "insert_alert_routes fails snapshot acc db =
     (if route_rows acc = [] then (None, db)
      else if fails S_insert_alert_routes then (Some OperationalError, db)
      else (None, db\<lparr>rt_alert_routes :=
              insert_rows_do_nothing id (child_rows snapshot (route_rows acc))
                (rt_alert_routes db)\<rparr>))"

definition insert_alert_stops ::
  "(Stmt \<Rightarrow> bool) \<Rightarrow> nat \<Rightarrow> AlertAcc \<Rightarrow> Database \<Rightarrow> exn option \<times> Database" where
  "insert_alert_stops fails snapshot acc db =
     (if stop_rows acc = [] then (None, db)
      else if fails S_insert_alert_stops then (Some OperationalError, db)
      else (None, db\<lparr>rt_alert_stops :=
              insert_rows_do_nothing id (child_rows snapshot (stop_rows acc))
                (rt_alert_stops db)\<rparr>))"

definition insert_alert_trips ::
  "(Stmt \<Rightarrow> bool) \<Rightarrow> nat \<Rightarrow> AlertAcc \<Rightarrow> Database \<Rightarrow> exn option \<times> Database" where
  "insert_alert_trips fails snapshot acc db =
     (if trip_rows acc = [] then (None, db)
      else if fails S_insert_alert_trips then (Some OperationalError, db)
      else (None, db\<lparr>rt_alert_trips :=
              insert_rows_do_nothing id (child_rows snapshot (trip_rows acc))
                (rt_alert_trips db)\<rparr>))"

definition insert_alert_active_periods ::
  "(Stmt \<Rightarrow> bool) \<Rightarrow> AlertAcc \<Rightarrow> Database \<Rightarrow> exn option \<times> Database" where
  "insert_alert_active_periods fails acc db =
     (if period_rows acc = [] then (None, db)
      else if fails S_insert_alert_active_periods then (Some OperationalError, db)
      else (None, db\<lparr>rt_alert_active_periods :=
              insert_rows_do_nothing fst (period_rows acc) (rt_alert_active_periods db)\<rparr>))"

definition insert_alert_children ::
  "(Stmt \<Rightarrow> bool) \<Rightarrow> nat \<Rightarrow> AlertAcc \<Rightarrow> Database \<Rightarrow> exn option \<times> Database" where
  "insert_alert_children fails snapshot acc db =
     (case insert_alert_routes fails snapshot acc db of
        (Some e, db1) \<Rightarrow> (Some e, db1)
      | (None, db1) \<Rightarrow>
          (case insert_alert_stops fails snapshot acc db1 of
             (Some e, db2) \<Rightarrow> (Some e, db2)
           | (None, db2) \<Rightarrow>
               (case insert_alert_trips fails snapshot acc db2 of
                  (Some e, db3) \<Rightarrow> (Some e, db3)
                | (None, db3) \<Rightarrow> insert_alert_active_periods fails acc db3)))"

definition AlertAcc_init :: AlertAcc where
  "AlertAcc_init =
     \<lparr>base_rows = [], route_rows = [], stop_rows = [], trip_rows = [], period_rows = []\<rparr>"

text \<open>After the rows of \<^verbatim>\<open>rt_alerts\<close>: the child rows, and the number of alerts.\<close>

definition store_alert_rows ::
  "(Stmt \<Rightarrow> bool) \<Rightarrow> nat \<Rightarrow> AlertAcc \<Rightarrow> Database \<Rightarrow> (exn + nat) \<times> Database" where
  "store_alert_rows fails snapshot acc db =
     (if base_rows acc = [] then (Inr 0, db)
      else if fails S_insert_alerts then (Inl OperationalError, db)
      else
        let (err, table) = insert_rows ar_key (map snd (base_rows acc)) (rt_alerts db);
            db1 = db\<lparr>rt_alerts := table\<rparr>
        in case err of
             Some e \<Rightarrow> (Inl e, db1)
           | None \<Rightarrow>
               (case insert_alert_children fails snapshot acc db1 of
                  (Some e, db2) \<Rightarrow> (Inl e, db2)
                | (None, db2) \<Rightarrow>
                    (Inr (length (remdups (map (\<lambda>kr. fst (fst kr)) (base_rows acc)))), db2)))"

definition store_alerts ::
  "(Stmt \<Rightarrow> bool) \<Rightarrow> nat \<Rightarrow> FeedEnvelope \<Rightarrow> DimLookup \<Rightarrow> Database
    \<Rightarrow> (exn + nat) \<times> DimLookup \<times> Database" where
  "store_alerts fails snapshot envelope lk db =
     (if entity (message envelope) = [] then (Inr 0, lk, db)
      else
        case epoch_to_datetime_int (header_timestamp envelope) of
          Inl exc \<Rightarrow> (Inl exc, lk, db)
        | Inr header_dt \<Rightarrow>
            let (res, lk1) =
                  alerts_loop snapshot (ref_data db) header_dt (entity (message envelope))
                    AlertAcc_init lk
            in case res of
                 Inl exc \<Rightarrow> (Inl exc, lk1, db)
               | Inr acc \<Rightarrow>
                   let (out, db1) = store_alert_rows fails snapshot acc db in (out, lk1, db1))"



subsection \<open>Child rows are inserted idempotently\<close>

lemma insert_rows_do_nothing_keys:
  "key ` set (insert_rows_do_nothing key rows table) = key ` set rows \<union> key ` set table"
  by (induction rows arbitrary: table) auto

lemma insert_rows_do_nothing_present:
  "key ` set rows \<subseteq> key ` set table \<Longrightarrow> insert_rows_do_nothing key rows table = table"
  by (induction rows arbitrary: table) auto

lemma insert_rows_do_nothing_idem:
  "insert_rows_do_nothing key rows (insert_rows_do_nothing key rows table)
     = insert_rows_do_nothing key rows table"
  by (rule insert_rows_do_nothing_present) (simp add: insert_rows_do_nothing_keys)

lemma insert_rows_do_nothing_distinct:
  "distinct (map key table) \<Longrightarrow> distinct (map key (insert_rows_do_nothing key rows table))"
  by (induction rows arbitrary: table) auto

lemma insert_rows_do_nothing_prefix:
  "\<exists>new. insert_rows_do_nothing key rows table = table @ new"
proof (induction rows arbitrary: table)
  case Nil
  then show ?case by simp
next
  case (Cons r rows)
  show ?case
  proof (cases "key r \<in> key ` set table")
    case True
    with Cons [of table] show ?thesis by simp
  next
    case False
    with Cons [of "table @ [r]"] show ?thesis by auto
  qed
qed

definition child_keys_distinct :: "Database \<Rightarrow> bool" where
  "child_keys_distinct db \<longleftrightarrow>
     distinct (rt_alert_routes db) \<and> distinct (rt_alert_stops db)
     \<and> distinct (rt_alert_trips db) \<and> distinct (map fst (rt_alert_active_periods db))"

lemma insert_alert_children_ok:
  assumes "\<not> fails S_insert_alert_routes" "\<not> fails S_insert_alert_stops"
    "\<not> fails S_insert_alert_trips" "\<not> fails S_insert_alert_active_periods"
  shows "insert_alert_children fails snapshot acc db =
     (None, db\<lparr>rt_alert_routes :=
                  insert_rows_do_nothing id (child_rows snapshot (route_rows acc))
                    (rt_alert_routes db),
                rt_alert_stops :=
                  insert_rows_do_nothing id (child_rows snapshot (stop_rows acc))
                    (rt_alert_stops db),
                rt_alert_trips :=
                  insert_rows_do_nothing id (child_rows snapshot (trip_rows acc))
                    (rt_alert_trips db),
                rt_alert_active_periods :=
                  insert_rows_do_nothing fst (period_rows acc) (rt_alert_active_periods db)\<rparr>)"
  using assms
  by (simp add: insert_alert_children_def insert_alert_routes_def insert_alert_stops_def
      insert_alert_trips_def insert_alert_active_periods_def child_rows_def)

text \<open>
  Claim C7: the child-row inserts of \<^verbatim>\<open>store_alerts\<close> (affected routes, stops and
  trips, active periods), run on any tables and with any collected rows, raise nothing of
  their own: unless the database fails a statement from outside, they return no error.
  Run again on the tables they produced, where every key is now present, they return no
  error and leave the tables as they are; and tables whose keys were unique keep keys
  that are unique, so no duplicate row is created.
\<close>

theorem insert_alert_children_idempotent:
  assumes "\<not> fails S_insert_alert_routes" "\<not> fails S_insert_alert_stops"
    "\<not> fails S_insert_alert_trips" "\<not> fails S_insert_alert_active_periods"
    and "insert_alert_children fails snapshot acc db = (err, db1)"
  shows "err = None
    \<and> insert_alert_children fails snapshot acc db1 = (None, db1)
    \<and> (child_keys_distinct db \<longrightarrow> child_keys_distinct db1)"
proof -
  note eq = insert_alert_children_ok [OF assms(1-4)]
  from assms(5) have err: "err = None" and db1: "db1 = snd (insert_alert_children fails snapshot acc db)"
    by (simp_all add: eq)
  have again: "insert_alert_children fails snapshot acc db1 = (None, db1)"
    unfolding db1 eq [of snapshot acc db]
    by (simp add: eq insert_rows_do_nothing_idem)
  have keys: "child_keys_distinct db \<longrightarrow> child_keys_distinct db1"
    unfolding db1 eq [of snapshot acc db] child_keys_distinct_def
    using insert_rows_do_nothing_distinct [of id] insert_rows_do_nothing_distinct [of fst]
    by auto
  from err again keys show ?thesis by blast
qed

text \<open>By contrast a plain batch, as the one for \<^verbatim>\<open>rt_alerts\<close>, fails when it is
  run a second time.\<close>

lemma insert_rows_again:
  "insert_rows key (r # rs) table = (None, table') \<Longrightarrow>
     fst (insert_rows key (r # rs) table') = Some UniqueViolation"
proof -
  have mono: "insert_rows key rows t = (None, t') \<Longrightarrow> set t \<subseteq> set t'" for rows t t'
  proof (induction rows arbitrary: t)
    case Nil
    then show ?case by simp
  next
    case (Cons a rows)
    from Cons.prems have "insert_rows key rows (t @ [a]) = (None, t')"
      by (simp split: if_splits)
    from Cons.IH [OF this] show ?case by simp
  qed
  assume a: "insert_rows key (r # rs) table = (None, table')"
  then have "insert_rows key rs (table @ [r]) = (None, table')"
    by (simp split: if_splits)
  from mono [OF this] have "key r \<in> key ` set table'" by auto
  then show ?thesis by simp
qed


definition no_faults :: "Stmt \<Rightarrow> bool" where
  "no_faults s = False"

definition empty_ref :: RefData where
  "empty_ref = \<lparr>dim_trips = [], dim_routes = [], dim_stops = [], dim_stop_times = []\<rparr>"

definition empty_db :: "RefData \<Rightarrow> Database" where
  "empty_db ref =
     \<lparr>ref_data = ref, rt_snapshots = [], rt_feed_cursors = [], rt_vehicle_positions = [],
      rt_rodalies_vehicle_positions = [], rt_rodalies_vehicle_current = [],
      rt_rodalies_vehicle_history = [], rt_trip_delays = [], rt_alerts = [],
      rt_alert_routes = [], rt_alert_stops = [], rt_alert_trips = [],
      rt_alert_active_periods = []\<rparr>"

definition repeated_children :: AlertAcc where
  "repeated_children =
     AlertAcc_init\<lparr>route_rows := [(''A1'', ''R1'')],
                   period_rows := [((1, ''A1'', 0), Some 1700000000, None),
                                   ((1, ''A1'', 0), Some 1700000600, None)]\<rparr>"

definition db_with_children :: Database where
  "db_with_children =
     (empty_db empty_ref)
       \<lparr>rt_alert_routes := [(1, ''A1'', ''R1'')],
        rt_alert_active_periods := [((1, ''A1'', 0), Some 1700000000, None)]\<rparr>"

theorem insert_alert_children_idempotent_witness:
  "\<not> no_faults S_insert_alert_routes \<and> \<not> no_faults S_insert_alert_stops
   \<and> \<not> no_faults S_insert_alert_trips \<and> \<not> no_faults S_insert_alert_active_periods
   \<and> insert_alert_children no_faults 1 repeated_children (empty_db empty_ref)
       = (None, db_with_children)
   \<and> insert_alert_children no_faults 1 repeated_children db_with_children
       = (None, db_with_children)
   \<and> child_keys_distinct (empty_db empty_ref) \<and> child_keys_distinct db_with_children"
proof -
  have f: "\<not> no_faults S_insert_alert_routes" "\<not> no_faults S_insert_alert_stops"
    "\<not> no_faults S_insert_alert_trips" "\<not> no_faults S_insert_alert_active_periods"
    by (simp_all add: no_faults_def)
  have run: "insert_alert_children no_faults 1 repeated_children (empty_db empty_ref)
       = (None, db_with_children)"
    by (simp add: insert_alert_children_def insert_alert_routes_def insert_alert_stops_def
        insert_alert_trips_def insert_alert_active_periods_def child_rows_def no_faults_def
        repeated_children_def AlertAcc_init_def empty_db_def db_with_children_def)
  have d: "child_keys_distinct (empty_db empty_ref)"
    by (simp add: child_keys_distinct_def empty_db_def)
  from insert_alert_children_idempotent [OF f run] f run d show ?thesis by blast
qed

section \<open>VehiclePositionWriter: \<^verbatim>\<open>store_vehicle_positions\<close>\<close>

text \<open>A run of statements: once one has raised, the rest do not run; a statement that
  is not needed (an empty batch) is skipped; a statement the database fails raises.\<close>

definition statement ::
  "(Stmt \<Rightarrow> bool) \<Rightarrow> Stmt \<Rightarrow> bool \<Rightarrow> (Database \<Rightarrow> Database) \<Rightarrow> exn option \<times> Database
    \<Rightarrow> exn option \<times> Database" where
  "statement fails s needed f st =
     (case st of
        (Some e, db) \<Rightarrow> (Some e, db)
      | (None, db) \<Rightarrow>
          if \<not> needed then (None, db)
          else if fails s then (Some OperationalError, db)
          else (None, f db))"

text \<open>The characters that \<^verbatim>\<open>str.strip\<close> removes, among the code points below 256:
  those of ASCII, the next-line control 133 and the no-break space 160.\<close>

definition is_space :: "char \<Rightarrow> bool" where
  "is_space c \<longleftrightarrow> (of_char c :: nat) \<in> {9, 10, 11, 12, 13, 28, 29, 30, 31, 32, 133, 160}"

text \<open>The Rodalies subset: the label, stripped and in upper case, starts with R. Of the
  code points below 256 only R and r are R in upper case.\<close>

definition is_rodalies :: "VehiclePositionRecord \<Rightarrow> bool" where
  "is_rodalies r \<longleftrightarrow>
     (case vpr_vehicle_label r of
        None \<Rightarrow> False
      | Some l \<Rightarrow>
          (case dropWhile is_space l of
             [] \<Rightarrow> False
           | c # _ \<Rightarrow> c = CHR ''R'' \<or> c = CHR ''r''))"

definition vehicle_key :: "string option \<Rightarrow> string \<Rightarrow> string" where
  "vehicle_key vehicle_id eid = (if truthy vehicle_id then the vehicle_id else ''entity:'' @ eid)"

definition no_delay :: TripDelaySnapshot where
  "no_delay =
     \<lparr>arrival_delay_seconds = None, departure_delay_seconds = None,
      schedule_relationship = None, predicted_arrival_utc = None,
      predicted_departure_utc = None\<rparr>"

definition delay_for :: "DelayLookup \<Rightarrow> VehiclePositionRecord \<Rightarrow> TripDelaySnapshot" where
  "delay_for delay_lookup r =
     (if truthy (vpr_trip_id r) \<and> truthy (vpr_current_stop_id r)
      then (case map_of delay_lookup (the (vpr_trip_id r), the (vpr_current_stop_id r)) of
              None \<Rightarrow> no_delay
            | Some d \<Rightarrow> d)
      else no_delay)"

text \<open>\<^verbatim>\<open>as_positions_tuple\<close> has no column for the vehicle's own timestamp.\<close>

definition as_positions_tuple :: "VehiclePositionRecord \<Rightarrow> VehiclePositionRecord" where
  "as_positions_tuple r = r\<lparr>vpr_vehicle_timestamp_utc := None\<rparr>"

definition position_key :: "VehiclePositionRecord \<Rightarrow> nat \<times> string" where
  "position_key r = (vpr_snapshot_id r, vpr_entity_id r)"

definition rodalies_row ::
  "DelayLookup \<Rightarrow> int option \<Rightarrow> VehiclePositionRecord \<Rightarrow> RodaliesRow" where
  "rodalies_row delay_lookup trip_update_timestamp r =
     \<lparr>rr_position = r, rr_delay = delay_for delay_lookup r,
      rr_trip_update_timestamp_utc = trip_update_timestamp\<rparr>"

definition history_row ::
  "DelayLookup \<Rightarrow> int option \<Rightarrow> nat \<Rightarrow> VehiclePositionRecord \<Rightarrow> HistoryRow" where
  "history_row delay_lookup trip_update_timestamp polled r =
     \<lparr>hr_vehicle_key = vehicle_key (vpr_vehicle_id r) (vpr_entity_id r),
      hr_row = rodalies_row delay_lookup trip_update_timestamp r,
      hr_polled_at_utc = polled\<rparr>"

definition current_row ::
  "DelayLookup \<Rightarrow> int option \<Rightarrow> nat \<Rightarrow> nat \<Rightarrow> VehiclePositionRecord
    \<Rightarrow> string \<times> CurrentRow" where
  "current_row delay_lookup trip_update_timestamp polled updated r =
     (vehicle_key (vpr_vehicle_id r) (vpr_entity_id r),
      \<lparr>cr_row = rodalies_row delay_lookup trip_update_timestamp r,
       cr_polled_at_utc = polled, cr_updated_at = updated\<rparr>)"

text \<open>The statements of \<^verbatim>\<open>store_vehicle_positions\<close> for the extracted records,
  which are not empty.\<close>

definition store_vehicle_rows ::
  "(Stmt \<Rightarrow> bool) \<Rightarrow> nat \<Rightarrow> nat \<Rightarrow> VehiclePositionRecord list \<Rightarrow> nat option
    \<Rightarrow> DelayLookup \<Rightarrow> int option \<Rightarrow> Database \<Rightarrow> exn option \<times> Database" where
  "store_vehicle_rows fails polled updated records history_retention delay_lookup
       trip_update_timestamp db =
     (let rodalies_records = filter is_rodalies records;
          cutoff = int polled - int (the history_retention)
      in
        statement fails S_prune_current (history_retention \<noteq> None)
          (\<lambda>d. d\<lparr>rt_rodalies_vehicle_current :=
                  filter (\<lambda>kr. \<not> int (cr_polled_at_utc (snd kr)) < cutoff)
                    (rt_rodalies_vehicle_current d)\<rparr>)
        (statement fails S_prune_history (history_retention \<noteq> None)
          (\<lambda>d. d\<lparr>rt_rodalies_vehicle_history :=
                  filter (\<lambda>h. \<not> int (hr_polled_at_utc h) < cutoff)
                    (rt_rodalies_vehicle_history d)\<rparr>)
        (statement fails S_upsert_rodalies_current (rodalies_records \<noteq> [])
          (\<lambda>d. d\<lparr>rt_rodalies_vehicle_current :=
                  fold (\<lambda>r table.
                          AList.update
                            (fst (current_row delay_lookup trip_update_timestamp
                                    polled updated r))
                            (snd (current_row delay_lookup trip_update_timestamp
                                    polled updated r)) table)
                    rodalies_records (rt_rodalies_vehicle_current d)\<rparr>)
        (statement fails S_insert_rodalies_history (rodalies_records \<noteq> [])
          (\<lambda>d. d\<lparr>rt_rodalies_vehicle_history :=
                  insert_rows_do_nothing
                    (\<lambda>h. (hr_vehicle_key h, vpr_snapshot_id (rr_position (hr_row h))))
                    (map (history_row delay_lookup trip_update_timestamp polled)
                       rodalies_records)
                    (rt_rodalies_vehicle_history d)\<rparr>)
        (statement fails S_insert_rodalies_positions (rodalies_records \<noteq> [])
          (\<lambda>d. d\<lparr>rt_rodalies_vehicle_positions :=
                  insert_rows_do_nothing (\<lambda>x. position_key (rr_position x))
                    (map (\<lambda>r. rodalies_row delay_lookup trip_update_timestamp
                                 (as_positions_tuple r)) rodalies_records)
                    (rt_rodalies_vehicle_positions d)\<rparr>)
        (statement fails S_insert_vehicle_positions True
          (\<lambda>d. d\<lparr>rt_vehicle_positions :=
                  insert_rows_do_nothing position_key (map as_positions_tuple records)
                    (rt_vehicle_positions d)\<rparr>)
        (None, db)))))))"

definition store_vehicle_positions ::
  "(Stmt \<Rightarrow> bool) \<Rightarrow> nat \<Rightarrow> nat \<Rightarrow> nat \<Rightarrow> FeedEnvelope \<Rightarrow> DimLookup \<Rightarrow> nat option
    \<Rightarrow> DelayLookup \<Rightarrow> int option \<Rightarrow> Database \<Rightarrow> (exn + nat) \<times> DimLookup \<times> Database" where
  "store_vehicle_positions fails snapshot polled updated envelope lk history_retention
       delay_lookup trip_update_timestamp db =
     (let (res, lk1) = extract_vehicle_position_rows snapshot (ref_data db) envelope lk in
      case res of
        Inl exc \<Rightarrow> (Inl exc, lk1, db)
      | Inr records \<Rightarrow>
          if records = [] then (Inr 0, lk1, db)
          else
            let (err, db1) =
                  store_vehicle_rows fails polled updated records history_retention
                    delay_lookup trip_update_timestamp db
            in case err of
                 Some e \<Rightarrow> (Inl e, lk1, db1)
               | None \<Rightarrow> (Inr (length records), lk1, db1))"

section \<open>CursorStore and snapshot rows\<close>

definition header_is_stale :: "nat option \<Rightarrow> nat option \<Rightarrow> bool" where
  "header_is_stale header previous =
     (case header of
        None \<Rightarrow> False
      | Some h \<Rightarrow> (case previous of None \<Rightarrow> False | Some p \<Rightarrow> h \<le> p))"

definition load_feed_cursors :: "Database \<Rightarrow> FeedType \<Rightarrow> nat option" where
  "load_feed_cursors db ft = map_option last_header_timestamp (map_of (rt_feed_cursors db) ft)"

definition update_feed_cursor ::
  "(Stmt \<Rightarrow> bool) \<Rightarrow> FeedType \<Rightarrow> nat option \<Rightarrow> nat \<Rightarrow> exn option \<times> Database
    \<Rightarrow> exn option \<times> Database" where
  "update_feed_cursor fails ft header snapshot st =
     statement fails (S_update_feed_cursor ft) (header \<noteq> None)
       (\<lambda>d. d\<lparr>rt_feed_cursors :=
               AList.update ft
                 \<lparr>last_header_timestamp = the header, last_snapshot_id = snapshot\<rparr>
                 (rt_feed_cursors d)\<rparr>) st"

text \<open>\<^verbatim>\<open>existing.header_timestamp or -1\<close>.\<close>

definition ts_or_minus_one :: "nat option \<Rightarrow> int" where
  "ts_or_minus_one h = (case h of None \<Rightarrow> - 1 | Some n \<Rightarrow> if n = 0 then - 1 else int n)"

fun index_loop ::
  "FeedEnvelope list \<Rightarrow> (FeedType \<times> FeedEnvelope) list \<Rightarrow> (FeedType \<times> FeedEnvelope) list" where
  "index_loop [] indexed = indexed"
| "index_loop (envelope # rest) indexed =
     (case map_of indexed (feed_type envelope) of
        Some existing \<Rightarrow>
          if ts_or_minus_one (header_timestamp existing)
               < ts_or_minus_one (header_timestamp envelope)
          then index_loop rest (AList.update (feed_type envelope) envelope indexed)
          else index_loop rest indexed
      | None \<Rightarrow> index_loop rest (AList.update (feed_type envelope) envelope indexed))"

definition index_envelopes :: "FeedEnvelope list \<Rightarrow> (FeedType \<times> FeedEnvelope) list" where
  "index_envelopes envelopes = index_loop envelopes []"

definition indexed_ts ::
  "(FeedType \<times> FeedEnvelope) list \<Rightarrow> FeedType \<Rightarrow> exn + int option" where
  "indexed_ts indexed ft =
     epoch_to_datetime_int
       (case map_of indexed ft of None \<Rightarrow> None | Some env \<Rightarrow> header_timestamp env)"

text \<open>\<^verbatim>\<open>insert_snapshot\<close>: the three header timestamps are converted, in the order
  vehicle positions, trip updates, alerts, before the row is inserted.\<close>

definition insert_snapshot ::
  "(Stmt \<Rightarrow> bool) \<Rightarrow> nat \<Rightarrow> nat \<Rightarrow> (FeedType \<times> FeedEnvelope) list \<Rightarrow> Database
    \<Rightarrow> exn option \<times> Database" where
  "insert_snapshot fails snapshot polled indexed db =
     (case indexed_ts indexed VEHICLE_POSITIONS of
        Inl exc \<Rightarrow> (Some exc, db)
      | Inr vehicle_ts \<Rightarrow>
     (case indexed_ts indexed TRIP_UPDATES of
        Inl exc \<Rightarrow> (Some exc, db)
      | Inr trip_ts \<Rightarrow>
     (case indexed_ts indexed ALERTS of
        Inl exc \<Rightarrow> (Some exc, db)
      | Inr alert_ts \<Rightarrow>
          if fails S_insert_snapshot then (Some OperationalError, db)
          else
            let (err, table) =
                  insert_rows sn_snapshot_id
                    [\<lparr>sn_snapshot_id = snapshot, sn_polled_at_utc = polled,
                      sn_vehicle_feed_timestamp_utc = vehicle_ts,
                      sn_trip_feed_timestamp_utc = trip_ts,
                      sn_alert_feed_timestamp_utc = alert_ts\<rparr>]
                    (rt_snapshots db)
            in (err, db\<lparr>rt_snapshots := table\<rparr>))))"

section \<open>SnapshotCoordinator: \<^verbatim>\<open>run_iteration\<close>\<close>

text \<open>
  The connection (\<^verbatim>\<open>autocommit = False\<close>): what is committed, and what the open
  transaction sees. Statements write the second; \<^verbatim>\<open>commit\<close> makes it the first;
  \<^verbatim>\<open>rollback\<close> and \<^verbatim>\<open>close\<close> throw it away.
\<close>

record Connection =
  committed :: Database
  pending :: Database

definition conn_commit :: "Connection \<Rightarrow> Connection" where
  "conn_commit conn = conn\<lparr>committed := pending conn\<rparr>"

definition conn_rollback :: "Connection \<Rightarrow> Connection" where
  "conn_rollback conn = conn\<lparr>pending := committed conn\<rparr>"

definition conn_close :: "Connection \<Rightarrow> Connection" where
  "conn_close conn = conn\<lparr>pending := committed conn\<rparr>"

text \<open>\<^verbatim>\<open>fetch_single_feed\<close>, given what \<^verbatim>\<open>poll_gtfs.fetch_feed\<close> did for the URL:
  it raised, or it returned a decoded message.\<close>

definition fetch_single_feed :: "string \<Rightarrow> exn + FeedMessage \<Rightarrow> exn + FeedEnvelope" where
  "fetch_single_feed u response =
     (case response of
        Inl exc \<Rightarrow> Inl exc
      | Inr msg \<Rightarrow>
          (case classify_feed u msg of
             Inl exc \<Rightarrow> Inl exc
           | Inr ft \<Rightarrow>
               Inr \<lparr>url = u, feed_type = ft, message = msg,
                    header_timestamp = (if header_ts msg = 0 then None else Some (header_ts msg))\<rparr>))"

text \<open>
  The failure state of one feed URL, and the two branches of the fetch loop. The failure
  branch returns whether an alert is dispatched. (The source also notes the time of
  the failure in \<^verbatim>\<open>failure_history\<close> for the daily report, which is left out.)
\<close>

record FailureState =
  count :: nat
  alert_sent :: bool

definition state_of :: "(string \<rightharpoonup> FailureState) \<Rightarrow> string \<Rightarrow> FailureState" where
  "state_of failure_state u =
     (case failure_state u of None \<Rightarrow> \<lparr>count = 0, alert_sent = False\<rparr> | Some st \<Rightarrow> st)"

definition on_failure :: "nat \<Rightarrow> FailureState \<Rightarrow> bool \<times> FailureState" where
  "on_failure failure_threshold st =
     (let st1 = st\<lparr>count := count st + 1\<rparr> in
      if 0 < failure_threshold \<and> failure_threshold \<le> count st1 \<and> \<not> alert_sent st1
      then (True, st1\<lparr>alert_sent := True\<rparr>)
      else (False, st1))"

definition on_success :: "FailureState \<Rightarrow> FailureState" where
  "on_success st =
     (if count st \<noteq> 0 \<or> alert_sent st then st\<lparr>count := 0, alert_sent := False\<rparr> else st)"

text \<open>The loop over the feeds. It returns the envelopes, the connection, the failure
  states and the alerts dispatched (URL and failure count), in order.\<close>

fun fetch_loop ::
  "nat \<Rightarrow> (string \<times> (exn + FeedMessage)) list \<Rightarrow> FeedEnvelope list \<Rightarrow> Connection
    \<Rightarrow> (string \<rightharpoonup> FailureState) \<Rightarrow> (string \<times> nat) list
    \<Rightarrow> FeedEnvelope list \<times> Connection \<times> (string \<rightharpoonup> FailureState) \<times> (string \<times> nat) list" where
  "fetch_loop failure_threshold [] envelopes conn failure_state sent =
     (envelopes, conn, failure_state, sent)"
| "fetch_loop failure_threshold (feed # rest) envelopes conn failure_state sent =
     (case fetch_single_feed (fst feed) (snd feed) of
        Inl exc \<Rightarrow>
          let (alert_now, st) = on_failure failure_threshold (state_of failure_state (fst feed))
          in fetch_loop failure_threshold rest envelopes (conn_rollback conn)
               (failure_state(fst feed \<mapsto> st))
               (if alert_now then sent @ [(fst feed, count st)] else sent)
      | Inr envelope \<Rightarrow>
          fetch_loop failure_threshold rest (envelopes @ [envelope]) conn
            (failure_state(fst feed \<mapsto> on_success (state_of failure_state (fst feed)))) sent)"

record Config =
  dry_run :: bool
  failure_threshold :: nat
  stop_times_csv :: "csv_file option"
  vehicle_history_retention :: "nat option"

text \<open>What one cycle gets from outside: for every feed URL what the fetch did, the
  snapshot id drawn, the clock at the two places it is read, and the statements the
  database fails.\<close>

record CycleInput =
  responses :: "(string \<times> (exn + FeedMessage)) list"
  new_snapshot_id :: nat
  polled_at :: nat
  updated_at :: nat
  fails :: "Stmt \<Rightarrow> bool"

definition all_kinds_fetched :: "FeedEnvelope list \<Rightarrow> bool" where
  "all_kinds_fetched envelopes \<longleftrightarrow> length (remdups (map feed_type envelopes)) = 3"

definition all_stale :: "(FeedType \<Rightarrow> nat option) \<Rightarrow> FeedEnvelope list \<Rightarrow> bool" where
  "all_stale cursors envelopes \<longleftrightarrow>
     list_all (\<lambda>env. header_is_stale (header_timestamp env) (cursors (feed_type env))) envelopes"

definition update_cursors ::
  "(Stmt \<Rightarrow> bool) \<Rightarrow> nat \<Rightarrow> (FeedType \<times> FeedEnvelope) list \<Rightarrow> exn option \<times> Database
    \<Rightarrow> exn option \<times> Database" where
  "update_cursors fls snapshot indexed st =
     fold (\<lambda>item. update_feed_cursor fls (fst item) (header_timestamp (snd item)) snapshot)
       indexed st"

text \<open>The write phase, lines 1658 to 1690 of the source: everything between the dry-run
  exit and \<^verbatim>\<open>lookup.report_missing()\<close>. It returns the error raised, if any, the
  transaction's state and the resolver.\<close>

definition write_phase ::
  "Config \<Rightarrow> CycleInput \<Rightarrow> (FeedType \<times> FeedEnvelope) list \<Rightarrow> Database
    \<Rightarrow> exn option \<times> Database \<times> DimLookup" where
  "write_phase cfg inp indexed db =
     (let lk = DimLookup_init (stop_times_csv cfg);
          sid = new_snapshot_id inp
      in case insert_snapshot (fails inp) sid (polled_at inp) indexed db of
           (Some e, db1) \<Rightarrow> (Some e, db1, lk)
         | (None, db1) \<Rightarrow>
       (case map_of indexed TRIP_UPDATES of
          None \<Rightarrow> (Some KeyError, db1, lk)
        | Some trip_env \<Rightarrow>
       (case store_trip_delays (fails inp) sid trip_env lk db1 of
          (Inl e, lk1, db2) \<Rightarrow> (Some e, db2, lk1)
        | (Inr (delay_count, delay_lookup), lk1, db2) \<Rightarrow>
       (case map_of indexed ALERTS of
          None \<Rightarrow> (Some KeyError, db2, lk1)
        | Some alert_env \<Rightarrow>
       (case store_alerts (fails inp) sid alert_env lk1 db2 of
          (Inl e, lk2, db3) \<Rightarrow> (Some e, db3, lk2)
        | (Inr alert_count, lk2, db3) \<Rightarrow>
       (case epoch_to_datetime_int (header_timestamp trip_env) of
          Inl e \<Rightarrow> (Some e, db3, lk2)
        | Inr trip_feed_timestamp \<Rightarrow>
       (case map_of indexed VEHICLE_POSITIONS of
          None \<Rightarrow> (Some KeyError, db3, lk2)
        | Some vehicle_env \<Rightarrow>
       (case store_vehicle_positions (fails inp) sid (polled_at inp) (updated_at inp)
               vehicle_env lk2 (vehicle_history_retention cfg) delay_lookup
               trip_feed_timestamp db3 of
          (Inl e, lk3, db4) \<Rightarrow> (Some e, db4, lk3)
        | (Inr vehicle_count, lk3, db4) \<Rightarrow>
       (case update_cursors (fails inp) sid indexed (None, db4) of
          (Some e, db5) \<Rightarrow> (Some e, db5, lk3)
        | (None, db5) \<Rightarrow> (None, db5, lk3))))))))))"

text \<open>
  \<^verbatim>\<open>run_iteration\<close>. The result is what the call returns (\<open>Inr\<close>) or raises
  (\<open>Inl\<close>), with the connection, the failure states and the alerts dispatched. Where it
  raises, the transaction is left as the failing statement found it. After the write
  phase \<^verbatim>\<open>report_missing\<close> logs the missing keys of the resolver, and the commit
  follows.
\<close>

definition run_iteration ::
  "Config \<Rightarrow> CycleInput \<Rightarrow> Connection \<Rightarrow> (string \<rightharpoonup> FailureState)
    \<Rightarrow> (exn + bool) \<times> Connection \<times> (string \<rightharpoonup> FailureState) \<times> (string \<times> nat) list" where
  "run_iteration cfg inp conn failure_state =
     (let (envelopes, conn1, failure_state1, sent) =
            fetch_loop (failure_threshold cfg) (responses inp) [] conn failure_state []
      in if \<not> all_kinds_fetched envelopes
         then (Inr False, conn_rollback conn1, failure_state1, sent)
         else if all_stale (load_feed_cursors (pending conn1)) envelopes
         then (Inr False, conn_rollback conn1, failure_state1, sent)
         else if dry_run cfg
         then (Inr True, conn_rollback conn1, failure_state1, sent)
         else
           (case write_phase cfg inp (index_envelopes envelopes) (pending conn1) of
              (Some e, db, lk) \<Rightarrow> (Inl e, conn1\<lparr>pending := db\<rparr>, failure_state1, sent)
            | (None, db, lk) \<Rightarrow>
                if fails inp S_commit
                then (Inl OperationalError, conn1\<lparr>pending := db\<rparr>, failure_state1, sent)
                else (Inr True, conn_commit (conn1\<lparr>pending := db\<rparr>), failure_state1, sent)))"



subsection \<open>FailureTracker\<close>

lemma on_success_reset: "on_success st = st\<lparr>count := 0, alert_sent := False\<rparr>"
  by (cases st) (auto simp: on_success_def)

text \<open>The fetch loop applies these two steps to the state of each URL of the cycle
  (the feed list has no URL twice: \<^verbatim>\<open>resolve_feeds\<close> removes repetitions).\<close>

lemma fetch_loop_failure_state:
  assumes "distinct (map fst feeds)" and "(u, response) \<in> set feeds"
  shows "fst (snd (snd (fetch_loop th feeds envelopes conn failure_state sent))) u =
      Some (case fetch_single_feed u response of
              Inl exc \<Rightarrow> snd (on_failure th (state_of failure_state u))
            | Inr envelope \<Rightarrow> on_success (state_of failure_state u))"
proof -
  have keep: "u \<notin> fst ` set feeds \<Longrightarrow>
      fst (snd (snd (fetch_loop th feeds envelopes conn failure_state sent))) u = failure_state u"
    for feeds envelopes conn failure_state sent
    by (induction feeds arbitrary: envelopes conn failure_state sent)
      (auto simp: split_beta Let_def split: sum.splits)
  from assms show ?thesis
  proof (induction feeds arbitrary: envelopes conn failure_state sent)
    case Nil
    then show ?case by simp
  next
    case (Cons f feeds)
    show ?case
    proof (cases "f = (u, response)")
      case True
      with Cons.prems have "u \<notin> fst ` set feeds" by auto
      with True show ?thesis
        by (auto simp: keep split_beta Let_def split: sum.splits)
    next
      case False
      with Cons.prems have in_rest: "(u, response) \<in> set feeds" and d: "distinct (map fst feeds)"
        by auto
      from in_rest have "u \<in> fst ` set feeds" by force
      with Cons.prems(1) have "fst f \<noteq> u" by auto
      with in_rest d have "(u, response) \<in> set feeds" "distinct (map fst feeds)" "fst f \<noteq> u"
        by auto
      with Cons.IH show ?thesis
        by (auto simp: split_beta Let_def state_of_def split: sum.splits)
    qed
  qed
qed


subsection \<open>What a cycle does to the snapshot table\<close>

text \<open>The envelopes of a cycle are those of the feeds whose fetch and classification
  both succeeded, in the order of the feed list.\<close>

definition fetched_envelopes :: "(string \<times> (exn + FeedMessage)) list \<Rightarrow> FeedEnvelope list" where
  "fetched_envelopes feeds =
     List.map_filter
       (\<lambda>feed. case fetch_single_feed (fst feed) (snd feed) of
                 Inl exc \<Rightarrow> None
               | Inr envelope \<Rightarrow> Some envelope) feeds"

text \<open>A snapshot row is created when the committed snapshot table has grown by the
  row of the cycle's snapshot id.\<close>

definition snapshot_created :: "Connection \<Rightarrow> Connection \<Rightarrow> nat \<Rightarrow> bool" where
  "snapshot_created conn conn' sid \<longleftrightarrow>
     map sn_snapshot_id (rt_snapshots (committed conn'))
       = map sn_snapshot_id (rt_snapshots (committed conn)) @ [sid]"

text \<open>Some fetched feed has a header timestamp and a stored cursor, and the first is
  strictly greater.\<close>

definition some_header_newer :: "(FeedType \<Rightarrow> nat option) \<Rightarrow> FeedEnvelope list \<Rightarrow> bool" where
  "some_header_newer cursors envelopes \<longleftrightarrow>
     list_ex (\<lambda>env. case (header_timestamp env, cursors (feed_type env)) of
                      (Some h, Some c) \<Rightarrow> c < h
                    | _ \<Rightarrow> False) envelopes"

text \<open>Between cycles the connection has no open writes.\<close>

definition clean :: "Connection \<Rightarrow> bool" where
  "clean conn \<longleftrightarrow> pending conn = committed conn"

lemma fetch_loop_envelopes:
  "fst (fetch_loop th feeds envelopes conn failure_state sent) = envelopes @ fetched_envelopes feeds"
  by (induction feeds arbitrary: envelopes conn failure_state sent)
    (auto simp: fetched_envelopes_def List.map_filter_simps split_beta Let_def split: sum.splits)

lemma conn_rollback_clean: "clean conn \<Longrightarrow> conn_rollback conn = conn"
  by (cases conn) (simp add: clean_def conn_rollback_def)

lemma fetch_loop_conn:
  "clean conn \<Longrightarrow> fst (snd (fetch_loop th feeds envelopes conn failure_state sent)) = conn"
  by (induction feeds arbitrary: envelopes failure_state sent)
    (auto simp: conn_rollback_clean split_beta Let_def split: sum.splits)

lemma statement_snapshots:
  assumes "\<And>d. rt_snapshots (f d) = rt_snapshots d"
  shows "rt_snapshots (snd (statement fls s needed f st)) = rt_snapshots (snd st)"
  using assms by (cases st) (auto simp: statement_def split: option.splits)

lemma store_trip_delays_snapshots:
  "rt_snapshots (snd (snd (store_trip_delays fls sid env lk db))) = rt_snapshots db"
  by (simp add: store_trip_delays_def split_beta Let_def split: option.splits sum.splits)

lemma insert_alert_children_snapshots:
  "rt_snapshots (snd (insert_alert_children fls sid acc db)) = rt_snapshots db"
  by (simp add: insert_alert_children_def insert_alert_routes_def insert_alert_stops_def
      insert_alert_trips_def insert_alert_active_periods_def split: option.splits prod.splits)

lemma store_alert_rows_snapshots:
  "rt_snapshots (snd (store_alert_rows fls sid acc db)) = rt_snapshots db"
  using insert_alert_children_snapshots
    [of fls sid acc "db\<lparr>rt_alerts := snd (insert_rows ar_key (map snd (base_rows acc)) (rt_alerts db))\<rparr>"]
  by (auto simp: store_alert_rows_def split_beta Let_def split: option.splits)

lemma store_alerts_snapshots:
  "rt_snapshots (snd (snd (store_alerts fls sid env lk db))) = rt_snapshots db"
  by (simp add: store_alerts_def split_beta Let_def store_alert_rows_snapshots
      split: sum.splits)

lemma store_vehicle_rows_snapshots:
  "rt_snapshots (snd (store_vehicle_rows fls p u records hr dl tt db)) = rt_snapshots db"
  by (simp add: store_vehicle_rows_def Let_def statement_snapshots)

lemma store_vehicle_positions_snapshots:
  "rt_snapshots (snd (snd (store_vehicle_positions fls sid p u env lk hr dl tt db))) = rt_snapshots db"
  by (simp add: store_vehicle_positions_def split_beta Let_def store_vehicle_rows_snapshots
      split: option.splits sum.splits)

lemma update_cursors_snapshots:
  "rt_snapshots (snd (update_cursors fls sid indexed st)) = rt_snapshots (snd st)"
  unfolding update_cursors_def
  by (induction indexed arbitrary: st) (simp_all add: update_feed_cursor_def statement_snapshots)

lemma insert_snapshot_None:
  assumes "insert_snapshot fls sid polled indexed db = (None, db1)"
  shows "map sn_snapshot_id (rt_snapshots db1) = map sn_snapshot_id (rt_snapshots db) @ [sid]"
  using assms by (auto simp: insert_snapshot_def split: if_splits sum.splits)

text \<open>A write phase that raises nothing has run every step.\<close>

lemma write_phase_NoneD:
  assumes "write_phase cfg inp indexed db = (None, db', lk')"
  obtains db1 te r2 lk1 db2 ae r3 lk2 db3 tt ve r4 db4 where
    "insert_snapshot (fails inp) (new_snapshot_id inp) (polled_at inp) indexed db = (None, db1)"
    "map_of indexed TRIP_UPDATES = Some te"
    "store_trip_delays (fails inp) (new_snapshot_id inp) te
       (DimLookup_init (stop_times_csv cfg)) db1 = (Inr r2, lk1, db2)"
    "map_of indexed ALERTS = Some ae"
    "store_alerts (fails inp) (new_snapshot_id inp) ae lk1 db2 = (Inr r3, lk2, db3)"
    "epoch_to_datetime_int (header_timestamp te) = Inr tt"
    "map_of indexed VEHICLE_POSITIONS = Some ve"
    "store_vehicle_positions (fails inp) (new_snapshot_id inp) (polled_at inp) (updated_at inp)
       ve lk2 (vehicle_history_retention cfg) (snd r2) tt db3 = (Inr r4, lk', db4)"
    "update_cursors (fails inp) (new_snapshot_id inp) indexed (None, db4) = (None, db')"
proof -
  let ?lk = "DimLookup_init (stop_times_csv cfg)"
  let ?sid = "new_snapshot_id inp"
  from assms obtain db1 where 1: "insert_snapshot (fails inp) ?sid (polled_at inp) indexed db = (None, db1)"
    by (auto simp: write_phase_def Let_def split: prod.splits option.splits)
  from assms 1 obtain te where te: "map_of indexed TRIP_UPDATES = Some te"
    by (auto simp: write_phase_def Let_def split: prod.splits option.splits)
  from assms 1 te obtain r2 lk1 db2 where 2:
    "store_trip_delays (fails inp) ?sid te ?lk db1 = (Inr r2, lk1, db2)"
    by (auto simp: write_phase_def Let_def split: prod.splits option.splits sum.splits)
  from assms 1 te 2 obtain ae where ae: "map_of indexed ALERTS = Some ae"
    by (auto simp: write_phase_def Let_def split: prod.splits option.splits sum.splits)
  from assms 1 te 2 ae obtain r3 lk2 db3 where 3:
    "store_alerts (fails inp) ?sid ae lk1 db2 = (Inr r3, lk2, db3)"
    by (auto simp: write_phase_def Let_def split: prod.splits option.splits sum.splits)
  from assms 1 te 2 ae 3 obtain tt where tt: "epoch_to_datetime_int (header_timestamp te) = Inr tt"
    by (auto simp: write_phase_def Let_def split: prod.splits option.splits sum.splits)
  from assms 1 te 2 ae 3 tt obtain ve where ve: "map_of indexed VEHICLE_POSITIONS = Some ve"
    by (auto simp: write_phase_def Let_def split: prod.splits option.splits sum.splits)
  from assms 1 te 2 ae 3 tt ve obtain r4 db4 where 4:
    "store_vehicle_positions (fails inp) ?sid (polled_at inp) (updated_at inp) ve lk2
       (vehicle_history_retention cfg) (snd r2) tt db3 = (Inr r4, lk', db4)"
    by (auto simp: write_phase_def Let_def split: prod.splits option.splits sum.splits)
  from assms 1 te 2 ae 3 tt ve 4 have 5:
    "update_cursors (fails inp) ?sid indexed (None, db4) = (None, db')"
    by (auto simp: write_phase_def Let_def split: prod.splits option.splits sum.splits)
  from that [OF 1 te 2 ae 3 tt ve 4 5] show thesis .
qed

lemma write_phase_None:
  assumes "write_phase cfg inp indexed db = (None, db', lk')"
  shows "map sn_snapshot_id (rt_snapshots db')
         = map sn_snapshot_id (rt_snapshots db) @ [new_snapshot_id inp]"
proof -
  from assms obtain db1 te r2 lk1 db2 ae r3 lk2 db3 tt ve r4 db4 where
    1: "insert_snapshot (fails inp) (new_snapshot_id inp) (polled_at inp) indexed db = (None, db1)"
    and 2: "store_trip_delays (fails inp) (new_snapshot_id inp) te
       (DimLookup_init (stop_times_csv cfg)) db1 = (Inr r2, lk1, db2)"
    and 3: "store_alerts (fails inp) (new_snapshot_id inp) ae lk1 db2 = (Inr r3, lk2, db3)"
    and 4: "store_vehicle_positions (fails inp) (new_snapshot_id inp) (polled_at inp) (updated_at inp)
       ve lk2 (vehicle_history_retention cfg) (snd r2) tt db3 = (Inr r4, lk', db4)"
    and 5: "update_cursors (fails inp) (new_snapshot_id inp) indexed (None, db4) = (None, db')"
    by (rule write_phase_NoneD)
  let ?sid = "new_snapshot_id inp"
  have "rt_snapshots db' = rt_snapshots db4"
    using update_cursors_snapshots [of "fails inp" ?sid indexed "(None, db4)"] 5 by simp
  also have "\<dots> = rt_snapshots db3"
    using store_vehicle_positions_snapshots [of "fails inp" ?sid "polled_at inp" "updated_at inp"
        ve lk2 "vehicle_history_retention cfg" "snd r2" tt db3] 4
    by simp
  also have "\<dots> = rt_snapshots db2"
    using store_alerts_snapshots [of "fails inp" ?sid ae lk1 db2] 3 by simp
  also have "\<dots> = rt_snapshots db1"
    using store_trip_delays_snapshots [of "fails inp" ?sid te "DimLookup_init (stop_times_csv cfg)" db1] 2
    by simp
  finally show ?thesis using insert_snapshot_None [OF 1] by simp
qed



lemma fetch_loop_split:
  "fetch_loop th feeds envelopes conn fs sent =
     (fst (fetch_loop th feeds envelopes conn fs sent),
      fst (snd (fetch_loop th feeds envelopes conn fs sent)),
      snd (snd (fetch_loop th feeds envelopes conn fs sent)))"
  by simp

lemma run_iteration_clean:
  assumes "clean conn"
  shows "run_iteration cfg inp conn fs =
    (let envelopes = fetched_envelopes (responses inp);
         rest = snd (snd (fetch_loop (failure_threshold cfg) (responses inp) [] conn fs []))
     in if \<not> all_kinds_fetched envelopes
           \<or> all_stale (load_feed_cursors (committed conn)) envelopes
        then (Inr False, conn, rest)
        else if dry_run cfg then (Inr True, conn, rest)
        else case write_phase cfg inp (index_envelopes envelopes) (committed conn) of
               (Some e, db, lk) \<Rightarrow> (Inl e, conn\<lparr>pending := db\<rparr>, rest)
             | (None, db, lk) \<Rightarrow>
                 if fails inp S_commit then (Inl OperationalError, conn\<lparr>pending := db\<rparr>, rest)
                 else (Inr True, \<lparr>committed = db, pending = db\<rparr>, rest))"
proof -
  let ?f = "fetch_loop (failure_threshold cfg) (responses inp) [] conn fs []"
  have e: "fst ?f = fetched_envelopes (responses inp)"
    by (simp add: fetch_loop_envelopes)
  have c: "fst (snd ?f) = conn"
    by (rule fetch_loop_conn [OF assms])
  have p: "pending conn = committed conn" using assms by (simp add: clean_def)
  have r: "conn_rollback conn = conn" by (rule conn_rollback_clean [OF assms])
  have cm: "conn_commit (conn\<lparr>pending := db\<rparr>) = \<lparr>committed = db, pending = db\<rparr>" for db
    by (cases conn) (simp add: conn_commit_def)
  show ?thesis
    unfolding run_iteration_def
    by (subst fetch_loop_split) (simp add: e c p r cm Let_def split: prod.splits option.splits)
qed

lemma UNIV_FeedType: "UNIV = {VEHICLE_POSITIONS, TRIP_UPDATES, ALERTS}"
  using FeedType.exhaust by auto

lemma all_kinds_fetched_iff: "all_kinds_fetched envelopes \<longleftrightarrow> feed_type ` set envelopes = UNIV"
proof -
  have fin: "finite (UNIV :: FeedType set)" and card: "card (UNIV :: FeedType set) = 3"
    by (simp_all add: UNIV_FeedType)
  have len: "length (remdups (map feed_type envelopes)) = card (feed_type ` set envelopes)"
    by (simp add: length_remdups_card_conv)
  show ?thesis
  proof
    assume "all_kinds_fetched envelopes"
    then have "card (feed_type ` set envelopes) = card (UNIV :: FeedType set)"
      using len card by (simp add: all_kinds_fetched_def)
    then show "feed_type ` set envelopes = UNIV"
      using card_subset_eq [OF fin subset_UNIV] by blast
  next
    assume "feed_type ` set envelopes = UNIV"
    then show "all_kinds_fetched envelopes"
      using len card by (simp add: all_kinds_fetched_def)
  qed
qed

lemma header_is_stale_iff:
  "header_is_stale header previous \<longleftrightarrow> (\<exists>h c. header = Some h \<and> previous = Some c \<and> h \<le> c)"
  by (cases header; cases previous) (simp_all add: header_is_stale_def)

lemma all_stale_iff:
  "all_stale cursors envelopes \<longleftrightarrow>
     (\<forall>env \<in> set envelopes. \<exists>h c. header_timestamp env = Some h
        \<and> cursors (feed_type env) = Some c \<and> h \<le> c)"
  by (simp add: all_stale_def list_all_iff header_is_stale_iff)



subsection \<open>A database after snapshot 7, and the three feeds of the next cycle\<close>

definition vehicle_feed :: "nat \<Rightarrow> FeedMessage" where
  "vehicle_feed ts = \<lparr>header_ts = ts, entity = [mk_entity ''V1'' (Some vehicle_at_51003) None None]\<rparr>"

definition trip_feed :: "nat \<Rightarrow> FeedMessage" where
  "trip_feed ts = \<lparr>header_ts = ts, entity = [mk_entity ''U1'' None (Some empty_trip_update) None]\<rparr>"

definition alert_feed :: "nat \<Rightarrow> FeedMessage" where
  "alert_feed ts = \<lparr>header_ts = ts, entity = [mk_entity ''A1'' None None (Some empty_alert)]\<rparr>"

definition stored_cursors :: "(FeedType \<times> CursorRow) list" where
  "stored_cursors =
     [(VEHICLE_POSITIONS, \<lparr>last_header_timestamp = 100, last_snapshot_id = 7\<rparr>),
      (TRIP_UPDATES, \<lparr>last_header_timestamp = 50, last_snapshot_id = 7\<rparr>),
      (ALERTS, \<lparr>last_header_timestamp = 75, last_snapshot_id = 7\<rparr>)]"

definition snapshot_7 :: SnapshotRow where
  "snapshot_7 =
     \<lparr>sn_snapshot_id = 7, sn_polled_at_utc = 1699999970,
      sn_vehicle_feed_timestamp_utc = Some 100, sn_trip_feed_timestamp_utc = Some 50,
      sn_alert_feed_timestamp_utc = Some 75\<rparr>"

definition db_after_7 :: Database where
  "db_after_7 =
     (empty_db ref_all_stops)\<lparr>rt_snapshots := [snapshot_7], rt_feed_cursors := stored_cursors\<rparr>"

definition conn_after_7 :: Connection where
  "conn_after_7 = \<lparr>committed = db_after_7, pending = db_after_7\<rparr>"

definition config :: "bool \<Rightarrow> Config" where
  "config dry =
     \<lparr>dry_run = dry, failure_threshold = 5, stop_times_csv = Some timetable_csv,
      vehicle_history_retention = Some 86400\<rparr>"

definition cycle_8 :: "nat \<Rightarrow> nat \<Rightarrow> nat \<Rightarrow> (Stmt \<Rightarrow> bool) \<Rightarrow> CycleInput" where
  "cycle_8 vehicle_ts trip_ts alert_ts fls =
     \<lparr>responses =
        [(''https://example.com/vehicle_positions.pb'', Inr (vehicle_feed vehicle_ts)),
         (''https://example.com/trip_updates.pb'', Inr (trip_feed trip_ts)),
         (''https://example.com/alerts.pb'', Inr (alert_feed alert_ts))],
      new_snapshot_id = 8, polled_at = 1700000000, updated_at = 1700000001, fails = fls\<rparr>"

lemmas writer_defs =
  write_phase_def insert_snapshot_def store_trip_delays_def store_alerts_def
  store_alert_rows_def store_vehicle_positions_def store_vehicle_rows_def
  update_cursors_def update_feed_cursor_def statement_def
  indexed_ts_def index_envelopes_def report_missing_def missing_line_def
  AlertAcc_init_def alert_rows_def translations_of_def language_of_def aggregate_start_def
  aggregate_end_def insert_alert_children_def insert_alert_routes_def insert_alert_stops_def
  insert_alert_trips_def insert_alert_active_periods_def child_rows_def
  is_rodalies_def is_space_def vehicle_key_def delay_for_def no_delay_def as_positions_tuple_def
  position_key_def rodalies_row_def history_row_def current_row_def td_key_def ar_key_def
  py_or_def ts_or_minus_one_def

lemmas cycle_defs =
  run_iteration_def fetch_single_feed_def classify_feed_def classify_url_def
  all_kinds_fetched_def all_stale_def header_is_stale_def load_feed_cursors_def
  conn_commit_def conn_rollback_def on_success_def on_failure_def state_of_def

lemmas example_defs =
  vehicle_feed_def trip_feed_def alert_feed_def stored_cursors_def snapshot_7_def
  db_after_7_def conn_after_7_def config_def cycle_8_def empty_db_def ref_all_stops_def
  timetable_csv_def vehicle_at_51003_def empty_trip_update_def empty_alert_def mk_entity_def
  no_faults_def


lemmas run_defs = cycle_defs writer_defs example_defs extract_defs lookup_defs

lemma run_iteration_collapse:
  "run_iteration cfg inp conn fs =
     (fst (run_iteration cfg inp conn fs), fst (snd (run_iteration cfg inp conn fs)),
      fst (snd (snd (run_iteration cfg inp conn fs))),
      snd (snd (snd (run_iteration cfg inp conn fs))))"
  by simp

text \<open>
  Claim C1, as stated, fails: the stored cursors are 100, 50 and 75; the vehicle feed
  comes with no header timestamp (0 on the wire), the other two with 50 and 75. All three
  kinds are fetched and classified and no header timestamp is greater than its cursor,
  yet the cycle writes snapshot 8.
\<close>

theorem snapshot_without_newer_header_counterexample:
  "snapshot_created conn_after_7
     (fst (snd (run_iteration (config False) (cycle_8 0 50 75 no_faults) conn_after_7 Map.empty))) 8
   \<and> map feed_type (fetched_envelopes (responses (cycle_8 0 50 75 no_faults)))
       = [VEHICLE_POSITIONS, TRIP_UPDATES, ALERTS]
   \<and> \<not> some_header_newer (load_feed_cursors (committed conn_after_7))
         (fetched_envelopes (responses (cycle_8 0 50 75 no_faults)))"
  by (simp add: snapshot_created_def some_header_newer_def fetched_envelopes_def
      List.map_filter_def run_defs)

text \<open>
  Claim C1, amended: from a connection with no open writes, a cycle that is not a dry
  run and returns (no statement raises) creates a snapshot row if and only if all three
  feed kinds were fetched and classified and at least one fetched feed is not stale,
  where a feed is stale when it has a header timestamp and its kind has a stored cursor
  and the timestamp is at most the cursor. The cycle returns true exactly when it created
  the row, and otherwise leaves the database as it was.
\<close>

theorem snapshot_created_iff:
  assumes "clean conn" and "\<not> dry_run cfg"
    and "run_iteration cfg inp conn fs = (Inr b, conn', fs', sent)"
  shows "(snapshot_created conn conn' (new_snapshot_id inp) \<longleftrightarrow>
            feed_type ` set (fetched_envelopes (responses inp)) = UNIV
            \<and> (\<exists>env \<in> set (fetched_envelopes (responses inp)).
                  \<not> header_is_stale (header_timestamp env)
                      (load_feed_cursors (committed conn) (feed_type env))))
    \<and> (b \<longleftrightarrow> snapshot_created conn conn' (new_snapshot_id inp))
    \<and> (\<not> b \<longrightarrow> conn' = conn)"
proof -
  let ?envs = "fetched_envelopes (responses inp)"
  let ?go = "all_kinds_fetched ?envs \<and> \<not> all_stale (load_feed_cursors (committed conn)) ?envs"
  have go: "?go \<longleftrightarrow> feed_type ` set ?envs = UNIV
            \<and> (\<exists>env \<in> set ?envs.
                  \<not> header_is_stale (header_timestamp env)
                      (load_feed_cursors (committed conn) (feed_type env)))"
    by (simp add: all_kinds_fetched_iff all_stale_def list_all_iff)
  note run = assms(3) [unfolded run_iteration_clean [OF assms(1)] Let_def]
  show ?thesis
  proof (cases ?go)
    case False
    with run assms(2) have "b = False" "conn' = conn" by (auto split: if_splits)
    moreover have "\<not> snapshot_created conn conn (new_snapshot_id inp)"
      by (simp add: snapshot_created_def)
    ultimately show ?thesis using False go by simp
  next
    case True
    with run assms(2) obtain db report where
      w: "write_phase cfg inp (index_envelopes ?envs) (committed conn) = (None, db, report)"
      and r: "b = True" "conn' = \<lparr>committed = db, pending = db\<rparr>"
      by (auto split: if_splits prod.splits option.splits)
    from write_phase_None [OF w] r have "snapshot_created conn conn' (new_snapshot_id inp)"
      by (simp add: snapshot_created_def)
    with True go r show ?thesis by simp
  qed
qed

theorem snapshot_created_iff_witness:
  "clean conn_after_7 \<and> \<not> dry_run (config False)
   \<and> fst (run_iteration (config False) (cycle_8 100 60 75 no_faults) conn_after_7 Map.empty)
       = Inr True
   \<and> snapshot_created conn_after_7
       (fst (snd (run_iteration (config False) (cycle_8 100 60 75 no_faults) conn_after_7
          Map.empty))) 8"
proof -
  have c: "clean conn_after_7" by (simp add: clean_def conn_after_7_def)
  have d: "\<not> dry_run (config False)" by (simp add: config_def)
  have r: "fst (run_iteration (config False) (cycle_8 100 60 75 no_faults) conn_after_7 Map.empty)
       = Inr True"
    by (simp add: run_defs)
  have n: "new_snapshot_id (cycle_8 100 60 75 no_faults) = 8" by (simp add: cycle_8_def)
  from snapshot_created_iff [OF c d, of "cycle_8 100 60 75 no_faults" Map.empty True]
    run_iteration_collapse [of "config False" "cycle_8 100 60 75 no_faults" conn_after_7 Map.empty]
    c d r n
  show ?thesis by metis
qed

text \<open>A dry run creates no snapshot row and leaves the connection as it was.\<close>

lemma dry_run_creates_no_snapshot:
  assumes "clean conn" and "dry_run cfg"
  shows "fst (snd (run_iteration cfg inp conn fs)) = conn"
    and "\<not> snapshot_created conn (fst (snd (run_iteration cfg inp conn fs))) (new_snapshot_id inp)"
proof -
  show c: "fst (snd (run_iteration cfg inp conn fs)) = conn"
    using assms(2) by (simp add: run_iteration_clean [OF assms(1)] Let_def)
  show "\<not> snapshot_created conn (fst (snd (run_iteration cfg inp conn fs))) (new_snapshot_id inp)"
    unfolding c by (simp add: snapshot_created_def)
qed

subsection \<open>Unchanged feeds, missing cursors, missing header timestamps\<close>


text \<open>
  Claim C2, as stated, fails: with stored cursors 100, 50 and 75 the feeds come with
  100, 60 and 75. The alerts feed is unchanged (75 against 75), but the trip updates are
  new, so the cycle writes snapshot 8, and with it the alert row of the unchanged feed,
  and it rewrites the alerts cursor, which now points at snapshot 8.
\<close>

theorem stale_feed_rows_written_counterexample:
  "header_is_stale (Some 75) (load_feed_cursors (committed conn_after_7) ALERTS)
   \<and> rt_alerts (committed conn_after_7) = []
   \<and> map (\<lambda>r. (ar_snapshot_id r, ar_alert_id r))
        (rt_alerts (committed (fst (snd (run_iteration (config False)
           (cycle_8 100 60 75 no_faults) conn_after_7 Map.empty)))))
       = [(8, ''A1'')]
   \<and> map_of (rt_feed_cursors (committed conn_after_7)) ALERTS
       = Some \<lparr>last_header_timestamp = 75, last_snapshot_id = 7\<rparr>
   \<and> map_of (rt_feed_cursors (committed (fst (snd (run_iteration (config False)
           (cycle_8 100 60 75 no_faults) conn_after_7 Map.empty))))) ALERTS
       = Some \<lparr>last_header_timestamp = 75, last_snapshot_id = 8\<rparr>"
  by (simp add: run_defs)

text \<open>
  Claim C2, amended: when every feed fetched in a cycle has a header timestamp that is
  less than or equal to the stored cursor of its kind, the cycle returns false and writes
  nothing: no snapshot, no row of any table, and no cursor changes (the connection, and
  so the whole database, is as before), whether or not all three kinds were fetched and
  whether or not the cycle is a dry run.
\<close>

theorem all_stale_writes_nothing:
  assumes "clean conn"
    and "\<forall>env \<in> set (fetched_envelopes (responses inp)).
           \<exists>h c. header_timestamp env = Some h
             \<and> load_feed_cursors (committed conn) (feed_type env) = Some c \<and> h \<le> c"
  shows "fst (run_iteration cfg inp conn fs) = Inr False
    \<and> fst (snd (run_iteration cfg inp conn fs)) = conn"
  using assms(2)
  by (simp add: run_iteration_clean [OF assms(1)] Let_def all_stale_iff)

theorem all_stale_writes_nothing_witness:
  "clean conn_after_7
   \<and> map (\<lambda>env. (header_timestamp env,
                  load_feed_cursors (committed conn_after_7) (feed_type env)))
        (fetched_envelopes (responses (cycle_8 100 50 75 no_faults)))
       = [(Some 100, Some 100), (Some 50, Some 50), (Some 75, Some 75)]
   \<and> fst (run_iteration (config False) (cycle_8 100 50 75 no_faults) conn_after_7 Map.empty)
       = Inr False
   \<and> fst (snd (run_iteration (config False) (cycle_8 100 50 75 no_faults) conn_after_7
        Map.empty)) = conn_after_7"
proof -
  have c: "clean conn_after_7" by (simp add: clean_def conn_after_7_def)
  have m: "map (\<lambda>env. (header_timestamp env,
                  load_feed_cursors (committed conn_after_7) (feed_type env)))
        (fetched_envelopes (responses (cycle_8 100 50 75 no_faults)))
       = [(Some 100, Some 100), (Some 50, Some 50), (Some 75, Some 75)]"
    by (simp add: fetched_envelopes_def List.map_filter_def run_defs)
  have s: "\<forall>env \<in> set (fetched_envelopes (responses (cycle_8 100 50 75 no_faults))).
           \<exists>h c. header_timestamp env = Some h
             \<and> load_feed_cursors (committed conn_after_7) (feed_type env) = Some c \<and> h \<le> c"
    by (simp add: fetched_envelopes_def List.map_filter_def run_defs)
  from all_stale_writes_nothing [OF c s, of "config False" Map.empty] c m show ?thesis
    by blast
qed

text \<open>
  Claim C10, as stated, fails in a dry run: the vehicle feed has no header timestamp and
  all three kinds are fetched, so the cycle passes the staleness check, but
  \<^verbatim>\<open>run_iteration\<close> returns before the write phase and no snapshot is written.
\<close>

theorem dry_run_writes_no_snapshot_counterexample:
  "map (\<lambda>env. (feed_type env, header_timestamp env))
       (fetched_envelopes (responses (cycle_8 0 50 75 no_faults)))
     = [(VEHICLE_POSITIONS, None), (TRIP_UPDATES, Some 50), (ALERTS, Some 75)]
   \<and> \<not> all_stale (load_feed_cursors (committed conn_after_7))
         (fetched_envelopes (responses (cycle_8 0 50 75 no_faults)))
   \<and> fst (run_iteration (config True) (cycle_8 0 50 75 no_faults) conn_after_7 Map.empty)
       = Inr True
   \<and> \<not> snapshot_created conn_after_7
         (fst (snd (run_iteration (config True) (cycle_8 0 50 75 no_faults) conn_after_7
            Map.empty))) 8"
  by (simp add: snapshot_created_def fetched_envelopes_def List.map_filter_def run_defs)

text \<open>
  Claim C10, amended: a feed whose kind has no stored cursor, or whose header timestamp
  is absent (zero on the wire), is not stale, and a cycle that fetched all three kinds
  and contains such a feed passes the staleness check. Such a cycle never returns false:
  in a dry run it returns true and writes nothing; otherwise it returns true with the
  snapshot written, unless a statement of the write phase raises, in which case nothing
  is committed.
\<close>

theorem no_cursor_or_header_not_stale:
  assumes "clean conn"
    and "feed_type ` set (fetched_envelopes (responses inp)) = UNIV"
    and "env \<in> set (fetched_envelopes (responses inp))"
    and "header_timestamp env = None
         \<or> load_feed_cursors (committed conn) (feed_type env) = None"
    and "run_iteration cfg inp conn fs = (out, conn', fs', sent)"
  shows "header_is_stale None previous = False \<and> header_is_stale header None = False
    \<and> \<not> header_is_stale (header_timestamp env)
          (load_feed_cursors (committed conn) (feed_type env))
    \<and> \<not> all_stale (load_feed_cursors (committed conn)) (fetched_envelopes (responses inp))
    \<and> (case out of
          Inr b \<Rightarrow> b \<and> (snapshot_created conn conn' (new_snapshot_id inp) \<longleftrightarrow> \<not> dry_run cfg)
        | Inl e \<Rightarrow> \<not> dry_run cfg \<and> committed conn' = committed conn)"
proof -
  let ?envs = "fetched_envelopes (responses inp)"
  have h: "header_is_stale None previous = False" "header_is_stale header None = False"
    by (simp_all add: header_is_stale_def split: option.splits)
  have ns: "\<not> header_is_stale (header_timestamp env)
          (load_feed_cursors (committed conn) (feed_type env))"
    using assms(4) by (auto simp: header_is_stale_iff)
  have na: "\<not> all_stale (load_feed_cursors (committed conn)) ?envs"
    using ns assms(3) by (auto simp: all_stale_def list_all_iff)
  have k: "all_kinds_fetched ?envs" using assms(2) by (simp add: all_kinds_fetched_iff)
  note run = assms(5) [unfolded run_iteration_clean [OF assms(1)] Let_def]
  have out: "case out of
          Inr b \<Rightarrow> b \<and> (snapshot_created conn conn' (new_snapshot_id inp) \<longleftrightarrow> \<not> dry_run cfg)
        | Inl e \<Rightarrow> \<not> dry_run cfg \<and> committed conn' = committed conn"
  proof (cases "dry_run cfg")
    case True
    with run k na have "out = Inr True" "conn' = conn" by auto
    then show ?thesis using True by (simp add: snapshot_created_def)
  next
    case False
    obtain err db report where
      w: "write_phase cfg inp (index_envelopes ?envs) (committed conn) = (err, db, report)"
      by (cases "write_phase cfg inp (index_envelopes ?envs) (committed conn)") auto
    show ?thesis
    proof (cases "err = None \<and> \<not> fails inp S_commit")
      case True
      with run k na False w have "out = Inr True" "conn' = \<lparr>committed = db, pending = db\<rparr>"
        by auto
      moreover from True w write_phase_None [of cfg inp "index_envelopes ?envs" "committed conn" db report]
      have "map sn_snapshot_id (rt_snapshots db)
            = map sn_snapshot_id (rt_snapshots (committed conn)) @ [new_snapshot_id inp]"
        by simp
      ultimately show ?thesis using False by (simp add: snapshot_created_def)
    next
      case F: False
      with run k na False w have "\<exists>e. out = Inl e" "committed conn' = committed conn"
        by (auto split: option.splits if_splits)
      then show ?thesis using False by auto
    qed
  qed
  from h ns na out show ?thesis by blast
qed

theorem no_cursor_or_header_not_stale_witness:
  "clean conn_after_7
   \<and> feed_type ` set (fetched_envelopes (responses (cycle_8 0 50 75 no_faults))) = UNIV
   \<and> map header_timestamp (fetched_envelopes (responses (cycle_8 0 50 75 no_faults)))
       = [None, Some 50, Some 75]
   \<and> fst (run_iteration (config False) (cycle_8 0 50 75 no_faults) conn_after_7 Map.empty)
       = Inr True
   \<and> snapshot_created conn_after_7
       (fst (snd (run_iteration (config False) (cycle_8 0 50 75 no_faults) conn_after_7
          Map.empty))) 8"
proof -
  let ?envs = "fetched_envelopes (responses (cycle_8 0 50 75 no_faults))"
  have c: "clean conn_after_7" by (simp add: clean_def conn_after_7_def)
  have m: "map (\<lambda>env. (feed_type env, header_timestamp env)) ?envs
     = [(VEHICLE_POSITIONS, None), (TRIP_UPDATES, Some 50), (ALERTS, Some 75)]"
    by (simp add: fetched_envelopes_def List.map_filter_def run_defs)
  then have "map feed_type ?envs = [VEHICLE_POSITIONS, TRIP_UPDATES, ALERTS]"
    and hs: "map header_timestamp ?envs = [None, Some 50, Some 75]"
    by (simp_all add: map_eq_Cons_conv) auto
  then have "set (map feed_type ?envs) = UNIV"
    by (simp add: UNIV_FeedType)
  then have k: "feed_type ` set ?envs = UNIV" by simp
  from hs have "None \<in> header_timestamp ` set ?envs"
    by (metis list.set_intros(1) set_map)
  then obtain env where e: "env \<in> set ?envs" "header_timestamp env = None"
    by force
  then have e2: "header_timestamp env = None
         \<or> load_feed_cursors (committed conn_after_7) (feed_type env) = None" by simp
  have d: "\<not> dry_run (config False)" by (simp add: config_def)
  have n: "new_snapshot_id (cycle_8 0 50 75 no_faults) = 8" by (simp add: cycle_8_def)
  have r: "fst (run_iteration (config False) (cycle_8 0 50 75 no_faults) conn_after_7 Map.empty)
       = Inr True"
    by (simp add: run_defs)
  from no_cursor_or_header_not_stale [OF c k e(1) e2
      run_iteration_collapse [of "config False" "cycle_8 0 50 75 no_faults" conn_after_7 Map.empty]]
    r d n
  have "snapshot_created conn_after_7
       (fst (snd (run_iteration (config False) (cycle_8 0 50 75 no_faults) conn_after_7
          Map.empty))) 8"
    by simp
  with c k hs r show ?thesis by blast
qed

section \<open>The polling loop of \<^verbatim>\<open>main\<close> and the MaintenanceScheduler\<close>

text \<open>
  Dates are day numbers, times of day are seconds since midnight (Europe/Madrid). The
  archive interval is the number of whole days that \<^verbatim>\<open>date + timedelta\<close> adds. Of the
  polling interval and the alignment interval only their presence matters here.
\<close>

record MainConfig =
  cycle_config :: Config
  auto_refresh_static :: bool
  static_refresh_time :: nat
  initial_static_refresh :: bool
  auto_archive_snapshots :: bool
  archive_time :: nat
  archive_interval_days :: int
  initial_archive_snapshots :: bool
  once :: bool
  interval_value :: "nat option"
  align_interval :: "nat option"

text \<open>The variables of \<^verbatim>\<open>main\<close> that the loop reads and writes:
  \<^verbatim>\<open>static_refresh_state\<close>, \<^verbatim>\<open>archive_state\<close>, the connection, the failure
  states and \<^verbatim>\<open>first_cycle\<close>; and, as \<open>ms_alerts\<close>, the failure alerts that the
  process has dispatched so far (\<^verbatim>\<open>send_failure_notification\<close>), each with its URL
  and failure count.\<close>

record MainState =
  ms_conn :: Connection
  ms_failure_state :: "string \<rightharpoonup> FailureState"
  ms_alerts :: "(string \<times> nat) list"
  last_refresh_date :: "int option"
  last_archive_date :: "int option"
  last_attempt_date :: "int option"
  next_archive_date :: "int option"
  first_cycle :: bool

text \<open>
  What one pass of the loop gets from outside: the clock where the refresh gate reads it
  and where the archive gate reads it, whether the maintenance subprocess exits with
  success, the database as that subprocess leaves it, and the input of the poll cycle.
\<close>

record LoopInput =
  refresh_now :: "int \<times> nat"
  refresh_ok :: bool
  archive_now :: "int \<times> nat"
  archive_ok :: bool
  maintained_db :: Database
  cycle :: CycleInput

datatype Task = Refresh | Archive

datatype LoopExit = Continue | Break | SystemExit | Raised exn

definition refresh_due :: "MainConfig \<Rightarrow> LoopInput \<Rightarrow> MainState \<Rightarrow> bool" where
  "refresh_due cfg inp st \<longleftrightarrow>
     auto_refresh_static cfg \<and> \<not> dry_run (cycle_config cfg)
     \<and> static_refresh_time cfg \<le> snd (refresh_now inp)
     \<and> last_refresh_date st \<noteq> Some (fst (refresh_now inp))"

definition archive_due :: "MainConfig \<Rightarrow> LoopInput \<Rightarrow> MainState \<Rightarrow> bool" where
  "archive_due cfg inp st \<longleftrightarrow>
     auto_archive_snapshots cfg \<and> \<not> dry_run (cycle_config cfg)
     \<and> archive_time cfg \<le> snd (archive_now inp)
     \<and> last_archive_date st \<noteq> Some (fst (archive_now inp))
     \<and> last_attempt_date st \<noteq> Some (fst (archive_now inp))
     \<and> (case next_archive_date st of None \<Rightarrow> True | Some n \<Rightarrow> n \<le> fst (archive_now inp))"

text \<open>The loop leaves at its top when it has no cadence and has polled once.\<close>

definition leaves_at_top :: "MainConfig \<Rightarrow> MainState \<Rightarrow> bool" where
  "leaves_at_top cfg st \<longleftrightarrow>
     align_interval cfg = None \<and> \<not> first_cycle st \<and> interval_value cfg = None"

text \<open>The maintenance task that a pass of the loop runs, if any: the refresh gate comes
  first and ends the pass (\<^verbatim>\<open>continue\<close>), then the archive gate.\<close>

definition task_run :: "MainConfig \<Rightarrow> LoopInput \<Rightarrow> MainState \<Rightarrow> Task option" where
  "task_run cfg inp st =
     (if leaves_at_top cfg st then None
      else if refresh_due cfg inp st then Some Refresh
      else if archive_due cfg inp st then Some Archive
      else None)"

definition reconnect :: "Database \<Rightarrow> Connection" where
  "reconnect db = \<lparr>committed = db, pending = db\<rparr>"

definition after_archive :: "MainConfig \<Rightarrow> LoopInput \<Rightarrow> MainState \<Rightarrow> MainState" where
  "after_archive cfg inp st =
     (let today = fst (archive_now inp);
          st1 = st\<lparr>last_attempt_date := Some today, ms_conn := reconnect (maintained_db inp)\<rparr>
      in if archive_ok inp
         then st1\<lparr>last_archive_date := Some today,
                  next_archive_date := Some (today + archive_interval_days cfg)\<rparr>
         else if next_archive_date st1 = None
         then st1\<lparr>next_archive_date := Some (today + archive_interval_days cfg)\<rparr>
         else st1)"

text \<open>
  One pass of the \<^verbatim>\<open>while True\<close> body. An exception of \<^verbatim>\<open>run_iteration\<close> is not
  caught anywhere in \<^verbatim>\<open>main\<close>: it leaves the loop. (The daily report and the
  start-up notification, which write nothing, are left out.)
\<close>

definition loop_body :: "MainConfig \<Rightarrow> LoopInput \<Rightarrow> MainState \<Rightarrow> LoopExit \<times> MainState" where
  "loop_body cfg inp st =
     (if leaves_at_top cfg st then (Break, st)
      else case task_run cfg inp st of
        Some Refresh \<Rightarrow>
          if \<not> refresh_ok inp then (SystemExit, st\<lparr>ms_conn := conn_close (ms_conn st)\<rparr>)
          else (Continue,
                st\<lparr>ms_conn := reconnect (maintained_db inp),
                   last_refresh_date := Some (fst (refresh_now inp)),
                   ms_failure_state := Map.empty\<rparr>)
      | Some Archive \<Rightarrow> (Continue, after_archive cfg inp st)
      | None \<Rightarrow>
          (case run_iteration (cycle_config cfg) (cycle inp) (ms_conn st) (ms_failure_state st) of
             (Inl e, conn1, fs1, sent) \<Rightarrow>
               (Raised e,
                st\<lparr>ms_conn := conn1, ms_failure_state := fs1, ms_alerts := ms_alerts st @ sent\<rparr>)
           | (Inr success, conn1, fs1, sent) \<Rightarrow>
               (if once cfg \<or> dry_run (cycle_config cfg) then Break
                else if align_interval cfg = None \<and> interval_value cfg = None then Break
                else Continue,
                st\<lparr>ms_conn := conn1, ms_failure_state := fs1, ms_alerts := ms_alerts st @ sent,
                   first_cycle := False\<rparr>)))"

text \<open>
  The loop, run on the inputs of its passes. When the inputs are used up the loop is still
  running (\<open>Continue\<close>). However the loop is left, the \<^verbatim>\<open>finally\<close> clause closes the
  connection, and with it the open transaction.
\<close>

fun main_loop :: "MainConfig \<Rightarrow> LoopInput list \<Rightarrow> MainState \<Rightarrow> LoopExit \<times> MainState" where
  "main_loop cfg [] st = (Continue, st)"
| "main_loop cfg (inp # rest) st =
     (case loop_body cfg inp st of
        (Continue, st1) \<Rightarrow> main_loop cfg rest st1
      | (ex, st1) \<Rightarrow> (ex, st1\<lparr>ms_conn := conn_close (ms_conn st1)\<rparr>))"

text \<open>
  The start of \<^verbatim>\<open>main\<close>, from the connection to the loop: the archive state is set
  up from the newest archive date found in the database, then the start-up refresh and
  the start-up archive run, if asked for.
\<close>

record StartupInput =
  latest_archive :: "int option"
  today_madrid :: int
  startup_refresh_now :: "int \<times> nat"
  startup_refresh_ok :: bool
  startup_archive_now :: "int \<times> nat"
  startup_archive_ok :: bool
  startup_db :: Database

definition startup :: "MainConfig \<Rightarrow> StartupInput \<Rightarrow> LoopExit \<times> MainState" where
  "startup cfg sinp =
     (let dry = dry_run (cycle_config cfg);
          latest = (if auto_archive_snapshots cfg \<and> \<not> dry then latest_archive sinp else None);
          next0 = (case latest of
                     Some d \<Rightarrow> d + archive_interval_days cfg
                   | None \<Rightarrow> today_madrid sinp + archive_interval_days cfg);
          st0 = \<lparr>ms_conn = reconnect (startup_db sinp), ms_failure_state = Map.empty,
                 ms_alerts = [], last_refresh_date = None, last_archive_date = latest,
                 last_attempt_date = None,
                 next_archive_date = (if auto_archive_snapshots cfg then Some next0 else None),
                 first_cycle = True\<rparr>
      in if initial_static_refresh cfg \<and> \<not> dry \<and> \<not> startup_refresh_ok sinp
         then (SystemExit, st0)
         else
           let st1 = (if initial_static_refresh cfg \<and> \<not> dry
                         \<and> static_refresh_time cfg \<le> snd (startup_refresh_now sinp)
                      then st0\<lparr>last_refresh_date := Some (fst (startup_refresh_now sinp))\<rparr>
                      else st0)
           in if auto_archive_snapshots cfg \<and> \<not> dry \<and> initial_archive_snapshots cfg
              then
                let today = fst (startup_archive_now sinp);
                    st2 = st1\<lparr>next_archive_date := Some (today_madrid sinp),
                             last_attempt_date := Some today\<rparr>
                in (Continue,
                    if startup_archive_ok sinp \<and> archive_time cfg \<le> snd (startup_archive_now sinp)
                    then st2\<lparr>last_archive_date := Some today,
                             next_archive_date := Some (today + archive_interval_days cfg)\<rparr>
                    else st2)
              else (Continue, st1))"



subsection \<open>One cycle is one transaction, and an error in it ends the loop\<close>

text \<open>A pass of the loop polls when it neither leaves at the top nor runs a
  maintenance task.\<close>

definition polls :: "MainConfig \<Rightarrow> LoopInput \<Rightarrow> MainState \<Rightarrow> bool" where
  "polls cfg inp st \<longleftrightarrow> \<not> leaves_at_top cfg st \<and> task_run cfg inp st = None"

lemma conn_close_clean: "clean c \<Longrightarrow> conn_close c = c"
  by (cases c) (simp add: clean_def conn_close_def)

lemma run_iteration_committed:
  assumes "clean c" and "run_iteration cfg inp c fs = (out, c', fs', sent)"
  shows "case out of
           Inl e \<Rightarrow> committed c' = committed c \<and> conn_close c' = c
         | Inr b \<Rightarrow>
             clean c'
             \<and> (if b \<and> \<not> dry_run cfg
                 then \<exists>report. write_phase cfg inp
                        (index_envelopes (fetched_envelopes (responses inp))) (committed c)
                      = (None, committed c', report)
                 else c' = c)"
proof -
  note run = assms(2) [unfolded run_iteration_clean [OF assms(1)] Let_def]
  have cl: "conn_close (c\<lparr>pending := db\<rparr>) = c" for db
    using assms(1) by (cases c) (simp add: conn_close_def clean_def)
  from run assms(1) show ?thesis
    by (auto simp: cl clean_def split: if_splits prod.splits option.splits)
qed

lemma loop_body_polls:
  assumes "polls cfg inp st"
  shows "loop_body cfg inp st =
     (case fst (run_iteration (cycle_config cfg) (cycle inp) (ms_conn st) (ms_failure_state st)) of
        Inl e \<Rightarrow>
          (Raised e,
           st\<lparr>ms_conn := fst (snd (run_iteration (cycle_config cfg) (cycle inp) (ms_conn st)
                                    (ms_failure_state st))),
              ms_failure_state := fst (snd (snd (run_iteration (cycle_config cfg) (cycle inp)
                                    (ms_conn st) (ms_failure_state st)))),
              ms_alerts := ms_alerts st @ snd (snd (snd (run_iteration (cycle_config cfg)
                                    (cycle inp) (ms_conn st) (ms_failure_state st))))\<rparr>)
      | Inr b \<Rightarrow>
          (if once cfg \<or> dry_run (cycle_config cfg) then Break
           else if align_interval cfg = None \<and> interval_value cfg = None then Break
           else Continue,
           st\<lparr>ms_conn := fst (snd (run_iteration (cycle_config cfg) (cycle inp) (ms_conn st)
                                    (ms_failure_state st))),
              ms_failure_state := fst (snd (snd (run_iteration (cycle_config cfg) (cycle inp)
                                    (ms_conn st) (ms_failure_state st)))),
              ms_alerts := ms_alerts st @ snd (snd (snd (run_iteration (cycle_config cfg)
                                    (cycle inp) (ms_conn st) (ms_failure_state st)))),
              first_cycle := False\<rparr>))"
  using assms
  by (simp add: loop_body_def polls_def split_beta split: sum.splits)

lemma main_loop_raised:
  assumes "clean (ms_conn st)" and "polls cfg inp st"
    and "fst (run_iteration (cycle_config cfg) (cycle inp) (ms_conn st) (ms_failure_state st))
         = Inl e"
  shows "fst (main_loop cfg (inp # rest) st) = Raised e"
    and "ms_conn (snd (main_loop cfg (inp # rest) st)) = ms_conn st"
proof -
  let ?r = "run_iteration (cycle_config cfg) (cycle inp) (ms_conn st) (ms_failure_state st)"
  have "?r = (Inl e, fst (snd ?r), fst (snd (snd ?r)), snd (snd (snd ?r)))"
    using assms(3) by (metis prod.collapse)
  from run_iteration_committed [OF assms(1) this]
  have c: "conn_close (fst (snd ?r)) = ms_conn st" by simp
  have b: "loop_body cfg inp st
      = (Raised e, st\<lparr>ms_conn := fst (snd ?r), ms_failure_state := fst (snd (snd ?r)),
                      ms_alerts := ms_alerts st @ snd (snd (snd ?r))\<rparr>)"
    by (simp add: loop_body_polls [OF assms(2)] assms(3))
  show "fst (main_loop cfg (inp # rest) st) = Raised e"
    by (simp add: b)
  show "ms_conn (snd (main_loop cfg (inp # rest) st)) = ms_conn st"
    by (simp add: b c)
qed

text \<open>
  Claim C4, amended: a cycle started on a connection with no open writes either raises,
  or returns with no open writes. When it returns true outside a dry run, what is
  committed is exactly the outcome of the whole write phase (snapshot row, trip delays,
  alerts, vehicle positions with their pruning, cursors), committed in one step; in every
  other case that returns, the connection is as before. When a statement of the write
  phase or the commit raises, nothing of the cycle is committed; the exception is not
  caught, so the polling loop is left with it, the connection is closed, which discards
  the open transaction, and no further cycle runs in this process.
\<close>

theorem write_exception_ends_polling:
  assumes "clean (ms_conn st)" and "polls cfg inp st"
    and "run_iteration (cycle_config cfg) (cycle inp) (ms_conn st) (ms_failure_state st)
         = (out, c', fs', sent)"
  shows "case out of
           Inl e \<Rightarrow>
             committed c' = committed (ms_conn st)
             \<and> fst (main_loop cfg (inp # rest) st) = Raised e
             \<and> ms_conn (snd (main_loop cfg (inp # rest) st)) = ms_conn st
         | Inr b \<Rightarrow>
             clean c'
             \<and> (if b \<and> \<not> dry_run (cycle_config cfg)
                 then \<exists>report. write_phase (cycle_config cfg) (cycle inp)
                        (index_envelopes (fetched_envelopes (responses (cycle inp))))
                        (committed (ms_conn st))
                      = (None, committed c', report)
                 else c' = ms_conn st)"
proof (cases out)
  case (Inl e)
  from run_iteration_committed [OF assms(1,3)] Inl
  have c: "committed c' = committed (ms_conn st)" by simp
  from assms(3) Inl
  have "fst (run_iteration (cycle_config cfg) (cycle inp) (ms_conn st) (ms_failure_state st))
         = Inl e" by simp
  from main_loop_raised [OF assms(1,2) this] c Inl show ?thesis by simp
next
  case (Inr b)
  with run_iteration_committed [OF assms(1,3)] show ?thesis by simp
qed

definition fault_at :: "Stmt \<Rightarrow> Stmt \<Rightarrow> bool" where
  "fault_at s x \<longleftrightarrow> x = s"

definition polling_config :: MainConfig where
  "polling_config =
     \<lparr>cycle_config = config False, auto_refresh_static = False, static_refresh_time = 36000,
      initial_static_refresh = False, auto_archive_snapshots = False, archive_time = 7200,
      archive_interval_days = 1, initial_archive_snapshots = False, once = False,
      interval_value = Some 30, align_interval = None\<rparr>"

definition loop_input :: "CycleInput \<Rightarrow> LoopInput" where
  "loop_input c =
     \<lparr>refresh_now = (12, 30000), refresh_ok = True, archive_now = (12, 30000),
      archive_ok = True, maintained_db = db_after_7, cycle = c\<rparr>"

definition state_after_7 :: MainState where
  "state_after_7 =
     \<lparr>ms_conn = conn_after_7, ms_failure_state = Map.empty, ms_alerts = [],
      last_refresh_date = None,
      last_archive_date = None, last_attempt_date = None, next_archive_date = None,
      first_cycle = True\<rparr>"

lemmas loop_defs =
  loop_body_def task_run_def leaves_at_top_def refresh_due_def archive_due_def
  polling_config_def loop_input_def state_after_7_def fault_at_def conn_close_def

lemma faulty_cycle_raises:
  "fst (run_iteration (config False) (cycle_8 100 60 75 (fault_at S_insert_alerts))
          conn_after_7 Map.empty) = Inl OperationalError"
  by (simp add: fault_at_def run_defs)

lemma good_cycle_returns:
  "fst (run_iteration (config False) (cycle_8 100 60 75 no_faults) conn_after_7 Map.empty)
     = Inr True"
  by (simp add: run_defs)

lemma good_cycle_snapshots:
  "map sn_snapshot_id (rt_snapshots (committed (fst (snd
     (run_iteration (config False) (cycle_8 100 60 75 no_faults) conn_after_7 Map.empty)))))
   = [7, 8]"
  by (simp add: run_defs)

lemma example_polls: "polls polling_config (loop_input c) state_after_7"
  by (simp add: polls_def loop_defs)

lemma example_projections:
  "cycle_config polling_config = config False" "cycle (loop_input c) = c"
  "ms_conn state_after_7 = conn_after_7" "ms_failure_state state_after_7 = Map.empty"
  "ms_alerts state_after_7 = []" "once polling_config = False" "dry_run (config False) = False"
  "interval_value polling_config = Some 30"
  by (simp_all add: polling_config_def loop_input_def state_after_7_def config_def)

lemma example_clean: "clean (ms_conn state_after_7)"
  by (simp add: clean_def state_after_7_def conn_after_7_def)

text \<open>
  Claim C4, as stated, fails in its last part: the database fails the insert into
  \<^verbatim>\<open>rt_alerts\<close> in the first of two scheduled cycles. Nothing of that cycle
  persists, but the loop ends with the error and the second cycle, which alone would
  have written snapshot 8, never runs.
\<close>

theorem no_retry_after_write_error_counterexample:
  "fst (main_loop polling_config
          [loop_input (cycle_8 100 60 75 (fault_at S_insert_alerts)),
           loop_input (cycle_8 100 60 75 no_faults)] state_after_7)
     = Raised OperationalError
   \<and> map sn_snapshot_id (rt_snapshots (committed (ms_conn (snd (main_loop polling_config
          [loop_input (cycle_8 100 60 75 (fault_at S_insert_alerts)),
           loop_input (cycle_8 100 60 75 no_faults)] state_after_7)))))
     = [7]
   \<and> fst (main_loop polling_config [loop_input (cycle_8 100 60 75 no_faults)] state_after_7)
     = Continue
   \<and> map sn_snapshot_id (rt_snapshots (committed (ms_conn (snd (main_loop polling_config
          [loop_input (cycle_8 100 60 75 no_faults)] state_after_7)))))
     = [7, 8]"
proof -
  have f: "fst (run_iteration (cycle_config polling_config)
             (cycle (loop_input (cycle_8 100 60 75 (fault_at S_insert_alerts))))
             (ms_conn state_after_7) (ms_failure_state state_after_7)) = Inl OperationalError"
    by (simp add: example_projections faulty_cycle_raises)
  note m = main_loop_raised [OF example_clean example_polls f,
      of "[loop_input (cycle_8 100 60 75 no_faults)]"]
  have s7: "map sn_snapshot_id (rt_snapshots (committed conn_after_7)) = [7]"
    by (simp add: conn_after_7_def db_after_7_def snapshot_7_def)
  have b: "loop_body polling_config (loop_input (cycle_8 100 60 75 no_faults)) state_after_7
     = (Continue,
        state_after_7\<lparr>ms_conn := fst (snd (run_iteration (config False)
                          (cycle_8 100 60 75 no_faults) conn_after_7 Map.empty)),
           ms_failure_state := fst (snd (snd (run_iteration (config False)
                          (cycle_8 100 60 75 no_faults) conn_after_7 Map.empty))),
           ms_alerts := snd (snd (snd (run_iteration (config False)
                          (cycle_8 100 60 75 no_faults) conn_after_7 Map.empty))),
           first_cycle := False\<rparr>)"
    by (simp add: loop_body_polls [OF example_polls] example_projections good_cycle_returns)
  have g: "main_loop polling_config [loop_input (cycle_8 100 60 75 no_faults)] state_after_7
     = (Continue,
        state_after_7\<lparr>ms_conn := fst (snd (run_iteration (config False)
                          (cycle_8 100 60 75 no_faults) conn_after_7 Map.empty)),
           ms_failure_state := fst (snd (snd (run_iteration (config False)
                          (cycle_8 100 60 75 no_faults) conn_after_7 Map.empty))),
           ms_alerts := snd (snd (snd (run_iteration (config False)
                          (cycle_8 100 60 75 no_faults) conn_after_7 Map.empty))),
           first_cycle := False\<rparr>)"
    by (simp add: b)
  show ?thesis
    unfolding g m by (simp add: example_projections s7 good_cycle_snapshots)
qed

theorem write_exception_ends_polling_witness:
  "clean (ms_conn state_after_7)
   \<and> polls polling_config (loop_input (cycle_8 100 60 75 (fault_at S_insert_alerts))) state_after_7
   \<and> fst (run_iteration (config False) (cycle_8 100 60 75 (fault_at S_insert_alerts))
            conn_after_7 Map.empty) = Inl OperationalError
   \<and> fst (main_loop polling_config
            [loop_input (cycle_8 100 60 75 (fault_at S_insert_alerts))] state_after_7)
       = Raised OperationalError
   \<and> ms_conn (snd (main_loop polling_config
            [loop_input (cycle_8 100 60 75 (fault_at S_insert_alerts))] state_after_7))
       = conn_after_7"
proof -
  let ?c = "cycle_8 100 60 75 (fault_at S_insert_alerts)"
  let ?r = "run_iteration (config False) ?c conn_after_7 Map.empty"
  have r: "run_iteration (cycle_config polling_config) (cycle (loop_input ?c))
             (ms_conn state_after_7) (ms_failure_state state_after_7)
           = (Inl OperationalError, fst (snd ?r), fst (snd (snd ?r)), snd (snd (snd ?r)))"
    unfolding example_projections using faulty_cycle_raises by (metis prod.collapse)
  from write_exception_ends_polling [OF example_clean example_polls r, of "[]"]
  have "fst (main_loop polling_config [loop_input ?c] state_after_7) = Raised OperationalError
      \<and> ms_conn (snd (main_loop polling_config [loop_input ?c] state_after_7)) = conn_after_7"
    by (simp add: example_projections)
  with example_clean example_polls faulty_cycle_raises show ?thesis by blast
qed



subsection \<open>When the maintenance tasks run\<close>













section \<open>A scenario of the specification: one feed is down\<close>


text \<open>
  The scenario of the specification: the fetch of the alerts feed throws, the other two
  succeed. The cycle returns false and leaves the database as it was; the counter of the
  alerts URL goes from 2 to 3, the counter of the vehicle URL is reset from 4 to 0.
\<close>

definition cycle_alerts_down :: CycleInput where
  "cycle_alerts_down =
     \<lparr>responses =
        [(''https://example.com/vehicle_positions.pb'', Inr (vehicle_feed 110)),
         (''https://example.com/trip_updates.pb'', Inr (trip_feed 60)),
         (''https://example.com/alerts.pb'', Inl FetchError)],
      new_snapshot_id = 8, polled_at = 1700000000, updated_at = 1700000001,
      fails = no_faults\<rparr>"

definition earlier_failures :: "string \<rightharpoonup> FailureState" where
  "earlier_failures =
     [''https://example.com/alerts.pb'' \<mapsto> \<lparr>count = 2, alert_sent = False\<rparr>,
      ''https://example.com/vehicle_positions.pb'' \<mapsto> \<lparr>count = 4, alert_sent = False\<rparr>]"

lemma alerts_feed_down_scenario:
  "fst (run_iteration (config False) cycle_alerts_down conn_after_7 earlier_failures) = Inr False
   \<and> fst (snd (run_iteration (config False) cycle_alerts_down conn_after_7 earlier_failures))
       = conn_after_7
   \<and> map (fst (snd (snd (run_iteration (config False) cycle_alerts_down conn_after_7
             earlier_failures))))
         [''https://example.com/vehicle_positions.pb'', ''https://example.com/trip_updates.pb'',
          ''https://example.com/alerts.pb'']
       = [Some \<lparr>count = 0, alert_sent = False\<rparr>, Some \<lparr>count = 0, alert_sent = False\<rparr>,
          Some \<lparr>count = 3, alert_sent = False\<rparr>]
   \<and> snd (snd (snd (run_iteration (config False) cycle_alerts_down conn_after_7
             earlier_failures))) = []"
  by (simp add: cycle_alerts_down_def earlier_failures_def run_defs)

section \<open>FailureTracker: the failure states through the polling loop\<close>

text \<open>The number of alerts for a URL among the alerts dispatched.\<close>

definition alerts_for :: "string \<Rightarrow> (string \<times> nat) list \<Rightarrow> nat" where
  "alerts_for u sent = length (filter (\<lambda>a. fst a = u) sent)"

text \<open>The alert flag of a URL says whether its counter has reached the threshold.\<close>

definition flag_ok :: "nat \<Rightarrow> FailureState \<Rightarrow> bool" where
  "flag_ok th s \<longleftrightarrow> (alert_sent s \<longleftrightarrow> 0 < th \<and> th \<le> count s)"

lemma on_failure_eq:
  "on_failure th s =
     (0 < th \<and> th \<le> count s + 1 \<and> \<not> alert_sent s,
      \<lparr>count = count s + 1, alert_sent = (alert_sent s \<or> (0 < th \<and> th \<le> count s + 1))\<rparr>)"
  by (cases s) (auto simp: on_failure_def Let_def)

lemma flag_ok_steps:
  "flag_ok th s \<Longrightarrow> flag_ok th (snd (on_failure th s))"
  "flag_ok th (on_success s)"
  "flag_ok th \<lparr>count = 0, alert_sent = False\<rparr>"
  by (auto simp: flag_ok_def on_failure_eq on_success_reset)

lemma fetch_loop_keep:
  "u \<notin> fst ` set feeds \<Longrightarrow>
     fst (snd (snd (fetch_loop th feeds envelopes conn failure_state sent))) u = failure_state u
     \<and> alerts_for u (snd (snd (snd (fetch_loop th feeds envelopes conn failure_state sent))))
         = alerts_for u sent"
  by (induction feeds arbitrary: envelopes conn failure_state sent)
    (auto simp: split_beta Let_def alerts_for_def split: sum.splits)

lemma fetch_loop_alerts:
  assumes "distinct (map fst feeds)" and "(u, response) \<in> set feeds"
  shows "alerts_for u (snd (snd (snd (fetch_loop th feeds envelopes conn failure_state sent))))
     = alerts_for u sent
       + (case fetch_single_feed u response of
            Inl exc \<Rightarrow> if fst (on_failure th (state_of failure_state u)) then 1 else 0
          | Inr envelope \<Rightarrow> 0)"
  using assms
proof (induction feeds arbitrary: envelopes conn failure_state sent)
  case Nil
  then show ?case by simp
next
  case (Cons f feeds)
  show ?case
  proof (cases "f = (u, response)")
    case True
    with Cons.prems have "u \<notin> fst ` set feeds" by auto
    from fetch_loop_keep [OF this] True show ?thesis
      by (auto simp: split_beta Let_def alerts_for_def split: sum.splits)
  next
    case False
    with Cons.prems have in_rest: "(u, response) \<in> set feeds" and d: "distinct (map fst feeds)"
      by auto
    from in_rest have "u \<in> fst ` set feeds" by force
    with Cons.prems(1) have "fst f \<noteq> u" by auto
    with Cons.IH [OF d in_rest] show ?thesis
      by (auto simp: split_beta Let_def state_of_def alerts_for_def split: sum.splits)
  qed
qed

lemma fetch_loop_flag_ok:
  "flag_ok th (state_of failure_state u) \<Longrightarrow>
     flag_ok th (state_of (fst (snd (snd (fetch_loop th feeds envelopes conn failure_state sent)))) u)"
proof (induction feeds arbitrary: envelopes conn failure_state sent)
  case Nil
  then show ?case by simp
next
  case (Cons f feeds)
  have 1: "flag_ok th (state_of (failure_state(fst f \<mapsto> snd (on_failure th (state_of failure_state (fst f))))) u)"
    using Cons.prems flag_ok_steps(1) [of th "state_of failure_state u"]
    by (cases "fst f = u") (simp_all add: state_of_def)
  have 2: "flag_ok th (state_of (failure_state(fst f \<mapsto> on_success (state_of failure_state (fst f)))) u)"
    using Cons.prems flag_ok_steps(2) [of th "state_of failure_state u"]
    by (cases "fst f = u") (simp_all add: state_of_def)
  note f1 = Cons.IH [OF 1] and f2 = Cons.IH [OF 2]
  show ?case
    by (simp add: split_beta Let_def f1 f2 split: sum.splits)
qed

text \<open>Whatever a cycle does next, its failure states and its alerts are those of the
  fetch loop.\<close>

lemma run_iteration_failure_part:
  "fst (snd (snd (run_iteration cfg inp conn fs)))
     = fst (snd (snd (fetch_loop (failure_threshold cfg) (responses inp) [] conn fs [])))"
  "snd (snd (snd (run_iteration cfg inp conn fs)))
     = snd (snd (snd (fetch_loop (failure_threshold cfg) (responses inp) [] conn fs [])))"
  by (simp_all add: run_iteration_def split_beta Let_def split: option.splits)

lemma alerts_for_append: "alerts_for u (xs @ ys) = alerts_for u xs + alerts_for u ys"
  by (simp add: alerts_for_def)

lemma loop_body_polls_failure_part:
  assumes "polls cfg inp st"
  shows "ms_failure_state (snd (loop_body cfg inp st))
     = fst (snd (snd (fetch_loop (failure_threshold (cycle_config cfg)) (responses (cycle inp)) []
                        (ms_conn st) (ms_failure_state st) [])))"
    and "ms_alerts (snd (loop_body cfg inp st))
     = ms_alerts st
       @ snd (snd (snd (fetch_loop (failure_threshold (cycle_config cfg)) (responses (cycle inp)) []
                          (ms_conn st) (ms_failure_state st) [])))"
  by (simp_all add: loop_body_polls [OF assms] run_iteration_failure_part split: sum.splits)

lemma loop_body_failure_state:
  "ms_failure_state (snd (loop_body cfg inp st)) =
     (if polls cfg inp st
      then fst (snd (snd (fetch_loop (failure_threshold (cycle_config cfg))
                            (responses (cycle inp)) [] (ms_conn st) (ms_failure_state st) [])))
      else if task_run cfg inp st = Some Refresh \<and> refresh_ok inp \<and> \<not> leaves_at_top cfg st
      then Map.empty
      else ms_failure_state st)"
proof (cases "polls cfg inp st")
  case True
  then show ?thesis by (simp add: loop_body_polls_failure_part)
next
  case False
  then show ?thesis
    by (cases "task_run cfg inp st")
      (auto simp: loop_body_def polls_def after_archive_def Let_def split: Task.splits)
qed

lemma loop_body_flag_ok:
  assumes "flag_ok th (state_of (ms_failure_state st) u)"
    and "th = failure_threshold (cycle_config cfg)"
  shows "flag_ok th (state_of (ms_failure_state (snd (loop_body cfg inp st))) u)"
  using assms fetch_loop_flag_ok [OF assms(1)] flag_ok_steps(3) [of th]
  by (simp add: loop_body_failure_state state_of_def)

lemma main_loop_flag_ok:
  assumes "th = failure_threshold (cycle_config cfg)"
  shows "flag_ok th (state_of (ms_failure_state st) u) \<Longrightarrow>
     flag_ok th (state_of (ms_failure_state (snd (main_loop cfg inps st))) u)"
proof (induction inps arbitrary: st)
  case Nil
  then show ?case by simp
next
  case (Cons inp inps)
  obtain ex st1 where b: "loop_body cfg inp st = (ex, st1)"
    by (cases "loop_body cfg inp st")
  from loop_body_flag_ok [OF Cons.prems assms, of inp] b
  have 1: "flag_ok th (state_of (ms_failure_state st1) u)" by simp
  show ?case
  proof (cases ex)
    case Continue
    with b Cons.IH [OF 1] show ?thesis by simp
  qed (use b 1 in simp_all)
qed

lemma startup_flag_ok:
  "flag_ok th (state_of (ms_failure_state (snd (startup cfg sinp))) u)"
  using flag_ok_steps(3) [of th]
  by (simp add: startup_def Let_def state_of_def)

lemma loop_body_poll_step:
  assumes "polls cfg inp st" and "distinct (map fst (responses (cycle inp)))"
    and "(u, response) \<in> set (responses (cycle inp))"
  shows "state_of (ms_failure_state (snd (loop_body cfg inp st))) u =
           (case fetch_single_feed u response of
              Inl exc \<Rightarrow>
                snd (on_failure (failure_threshold (cycle_config cfg))
                       (state_of (ms_failure_state st) u))
            | Inr envelope \<Rightarrow> on_success (state_of (ms_failure_state st) u))"
    and "alerts_for u (ms_alerts (snd (loop_body cfg inp st))) =
           alerts_for u (ms_alerts st)
           + (case fetch_single_feed u response of
                Inl exc \<Rightarrow>
                  if fst (on_failure (failure_threshold (cycle_config cfg))
                            (state_of (ms_failure_state st) u)) then 1 else 0
              | Inr envelope \<Rightarrow> 0)"
  using fetch_loop_failure_state [OF assms(2,3),
      of "failure_threshold (cycle_config cfg)" "[]" "ms_conn st" "ms_failure_state st" "[]"]
    fetch_loop_alerts [OF assms(2,3),
      of "failure_threshold (cycle_config cfg)" "[]" "ms_conn st" "ms_failure_state st" "[]"]
  by (simp_all add: loop_body_polls_failure_part [OF assms(1)] alerts_for_append state_of_def
      alerts_for_def)

text \<open>A streak in the loop: every pass polls, and the fetch of the URL fails in
  each.\<close>

fun failing_passes ::
  "MainConfig \<Rightarrow> string \<Rightarrow> LoopInput list \<Rightarrow> MainState \<Rightarrow> bool" where
  "failing_passes cfg u [] st \<longleftrightarrow> True"
| "failing_passes cfg u (inp # rest) st \<longleftrightarrow>
     polls cfg inp st \<and> distinct (map fst (responses (cycle inp)))
     \<and> list_ex (\<lambda>feed. fst feed = u \<and> isl (fetch_single_feed u (snd feed))) (responses (cycle inp))
     \<and> failing_passes cfg u rest (snd (loop_body cfg inp st))"

lemma failing_streak:
  assumes "th = failure_threshold (cycle_config cfg)"
  shows "failing_passes cfg u inps st \<Longrightarrow> main_loop cfg inps st = (Continue, st') \<Longrightarrow>
     flag_ok th (state_of (ms_failure_state st) u) \<Longrightarrow>
     count (state_of (ms_failure_state st') u)
       = count (state_of (ms_failure_state st) u) + length inps
     \<and> alerts_for u (ms_alerts st')
       = alerts_for u (ms_alerts st)
         + (if count (state_of (ms_failure_state st) u) < th
               \<and> th \<le> count (state_of (ms_failure_state st) u) + length inps
            then 1 else 0)"
proof (induction inps arbitrary: st)
  case Nil
  then show ?case by auto
next
  case (Cons inp inps)
  let ?s = "state_of (ms_failure_state st) u"
  obtain ex st1 where b: "loop_body cfg inp st = (ex, st1)"
    by (cases "loop_body cfg inp st")
  with Cons.prems(2) have ex: "ex = Continue" and m: "main_loop cfg inps st1 = (Continue, st')"
    by (cases ex; simp)+
  from Cons.prems(1) b have p: "polls cfg inp st"
    and d: "distinct (map fst (responses (cycle inp)))"
    and f: "failing_passes cfg u inps st1"
    by simp_all
  from Cons.prems(1) obtain response where
    r: "(u, response) \<in> set (responses (cycle inp))" "isl (fetch_single_feed u response)"
    by (auto simp: list_ex_iff)
  from r(2) obtain exc where exc: "fetch_single_feed u response = Inl exc"
    by (cases "fetch_single_feed u response") auto
  note step = loop_body_poll_step [OF p d r(1), unfolded exc b, simplified, folded assms]
  have s1: "state_of (ms_failure_state st1) u = snd (on_failure th ?s)"
    and a1: "alerts_for u (ms_alerts st1)
        = alerts_for u (ms_alerts st) + (if fst (on_failure th ?s) then 1 else 0)"
    using step by simp_all
  have ok1: "flag_ok th (state_of (ms_failure_state st1) u)"
    unfolding s1 by (rule flag_ok_steps(1) [OF Cons.prems(3)])
  from Cons.IH [OF f m ok1] Cons.prems(3) show ?case
    unfolding s1 a1 by (auto simp: on_failure_eq flag_ok_def)
qed

text \<open>A configuration with the failure threshold 1 and the static refresh at 10:00, and
  a pass of the loop at a time of day of day 12 in which the fetch of the alerts feed
  fails.\<close>

definition alerting_config :: MainConfig where
  "alerting_config =
     \<lparr>cycle_config = (config False)\<lparr>failure_threshold := 1\<rparr>, auto_refresh_static = True,
      static_refresh_time = 36000, initial_static_refresh = False,
      auto_archive_snapshots = False, archive_time = 7200, archive_interval_days = 1,
      initial_archive_snapshots = False, once = False, interval_value = Some 30,
      align_interval = None\<rparr>"

definition pass_at :: "nat \<Rightarrow> LoopInput" where
  "pass_at time =
     \<lparr>refresh_now = (12, time), refresh_ok = True, archive_now = (12, time),
      archive_ok = True, maintained_db = db_after_7, cycle = cycle_alerts_down\<rparr>"

lemmas alerting_defs =
  alerting_config_def pass_at_def cycle_alerts_down_def state_after_7_def loop_body_def
  task_run_def leaves_at_top_def refresh_due_def archive_due_def polls_def reconnect_def
  conn_close_def

text \<open>
  Claim C8, as stated, fails across a static refresh: the threshold is 1 and the alerts
  feed is down. The pass at 9:43 polls, the fetch fails, the counter becomes 1 and an
  alert is dispatched. The pass at 10:00 runs the static refresh, which clears the
  failure states. The pass at 10:00:30 polls, the fetch fails again, with no success in
  between: the counter, after two failures in a row, is 1 and not 2, and a second alert
  is dispatched for the same streak.
\<close>

theorem second_alert_after_refresh_counterexample:
  "failure_threshold (cycle_config alerting_config) = 1
   \<and> map_of (responses (cycle (pass_at 35000))) ''https://example.com/alerts.pb''
       = Some (Inl FetchError)
   \<and> polls alerting_config (pass_at 35000) state_after_7
   \<and> task_run alerting_config (pass_at 36000)
        (snd (main_loop alerting_config [pass_at 35000] state_after_7)) = Some Refresh
   \<and> polls alerting_config (pass_at 36030)
        (snd (main_loop alerting_config [pass_at 35000, pass_at 36000] state_after_7))
   \<and> fst (main_loop alerting_config [pass_at 35000, pass_at 36000, pass_at 36030]
            state_after_7) = Continue
   \<and> ms_alerts (snd (main_loop alerting_config [pass_at 35000, pass_at 36000, pass_at 36030]
            state_after_7))
       = [(''https://example.com/alerts.pb'', 1), (''https://example.com/alerts.pb'', 1)]
   \<and> count (state_of (ms_failure_state (snd (main_loop alerting_config
            [pass_at 35000, pass_at 36000, pass_at 36030] state_after_7)))
          ''https://example.com/alerts.pb'') = 1"
  by (simp add: alerting_defs run_defs)

text \<open>
  Claim C8, amended. In a pass of the loop that polls, for every feed URL of the cycle
  (no URL is in the feed list twice): when its fetch fails, its counter goes up by
  exactly one, and an alert for it is dispatched exactly when the threshold is positive,
  the new count has reached it and the alert flag is not set, and the flag is set from
  then on; when its fetch succeeds, its counter is zero and the flag is cleared, and no
  alert is dispatched. The flag is set exactly when the counter has reached a positive
  threshold: this holds when the loop is entered and after every pass, whatever the pass
  does, so an alert is dispatched exactly in a failing pass in which the counter becomes
  equal to the threshold. In a run of passes that all poll and in all of which the fetch
  of the URL fails, the counter goes up by the number of passes, and exactly one alert is
  dispatched if the counter starts below the threshold and reaches it, none otherwise.
  The counter is reset not only by a success: a pass that runs a successful static
  refresh clears the failure states of all URLs.
\<close>

theorem failure_counter_and_alert:
  assumes "polls cfg inp st"
    and "distinct (map fst (responses (cycle inp)))"
    and "(u, response) \<in> set (responses (cycle inp))"
  shows
    "(let th = failure_threshold (cycle_config cfg);
          s = state_of (ms_failure_state st) u;
          st1 = snd (loop_body cfg inp st);
          s1 = state_of (ms_failure_state st1) u
      in (case fetch_single_feed u response of
            Inl exc \<Rightarrow>
              count s1 = count s + 1
              \<and> alerts_for u (ms_alerts st1)
                  = alerts_for u (ms_alerts st)
                    + (if 0 < th \<and> th \<le> count s1 \<and> \<not> alert_sent s then 1 else 0)
              \<and> (alert_sent s1 \<longleftrightarrow> alert_sent s \<or> (0 < th \<and> th \<le> count s1))
              \<and> (flag_ok th s \<longrightarrow>
                    alerts_for u (ms_alerts st1)
                      = alerts_for u (ms_alerts st) + (if count s1 = th then 1 else 0))
          | Inr envelope \<Rightarrow>
              count s1 = 0 \<and> \<not> alert_sent s1
              \<and> alerts_for u (ms_alerts st1) = alerts_for u (ms_alerts st))
         \<and> (\<forall>sinp. flag_ok th (state_of (ms_failure_state (snd (startup cfg sinp))) u))
         \<and> (\<forall>inps. flag_ok th s \<longrightarrow>
               flag_ok th (state_of (ms_failure_state (snd (main_loop cfg inps st))) u))
         \<and> (\<forall>inps st'.
               failing_passes cfg u inps st \<and> main_loop cfg inps st = (Continue, st')
               \<and> flag_ok th s \<longrightarrow>
               count (state_of (ms_failure_state st') u) = count s + length inps
               \<and> alerts_for u (ms_alerts st')
                   = alerts_for u (ms_alerts st)
                     + (if count s < th \<and> th \<le> count s + length inps then 1 else 0))
         \<and> (\<forall>inp'. task_run cfg inp' st = Some Refresh \<and> refresh_ok inp' \<longrightarrow>
               ms_failure_state (snd (loop_body cfg inp' st)) = Map.empty))"
proof -
  define th where "th = failure_threshold (cycle_config cfg)"
  define s where "s = state_of (ms_failure_state st) u"
  define st1 where "st1 = snd (loop_body cfg inp st)"
  define s1 where "s1 = state_of (ms_failure_state st1) u"
  note step = loop_body_poll_step [OF assms, folded th_def s_def st1_def s1_def]
  have a: "case fetch_single_feed u response of
            Inl exc \<Rightarrow>
              count s1 = count s + 1
              \<and> alerts_for u (ms_alerts st1)
                  = alerts_for u (ms_alerts st)
                    + (if 0 < th \<and> th \<le> count s1 \<and> \<not> alert_sent s then 1 else 0)
              \<and> (alert_sent s1 \<longleftrightarrow> alert_sent s \<or> (0 < th \<and> th \<le> count s1))
              \<and> (flag_ok th s \<longrightarrow>
                    alerts_for u (ms_alerts st1)
                      = alerts_for u (ms_alerts st) + (if count s1 = th then 1 else 0))
          | Inr envelope \<Rightarrow>
              count s1 = 0 \<and> \<not> alert_sent s1
              \<and> alerts_for u (ms_alerts st1) = alerts_for u (ms_alerts st)"
  proof (cases "fetch_single_feed u response")
    case (Inl exc)
    with step show ?thesis
      by (auto simp: on_failure_eq flag_ok_def)
  next
    case (Inr envelope)
    with step show ?thesis
      by (simp add: on_success_reset)
  qed
  have b: "\<forall>sinp. flag_ok th (state_of (ms_failure_state (snd (startup cfg sinp))) u)"
    by (simp add: startup_flag_ok)
  have c: "\<forall>inps. flag_ok th s \<longrightarrow>
               flag_ok th (state_of (ms_failure_state (snd (main_loop cfg inps st))) u)"
    using main_loop_flag_ok [OF th_def, of st u] by (simp add: s_def)
  have d: "\<forall>inps st'.
               failing_passes cfg u inps st \<and> main_loop cfg inps st = (Continue, st')
               \<and> flag_ok th s \<longrightarrow>
               count (state_of (ms_failure_state st') u) = count s + length inps
               \<and> alerts_for u (ms_alerts st')
                   = alerts_for u (ms_alerts st)
                     + (if count s < th \<and> th \<le> count s + length inps then 1 else 0)"
    using failing_streak [OF th_def, of u _ st] unfolding s_def by blast
  have e: "\<forall>inp'. task_run cfg inp' st = Some Refresh \<and> refresh_ok inp' \<longrightarrow>
               ms_failure_state (snd (loop_body cfg inp' st)) = Map.empty"
    by (auto simp: loop_body_failure_state polls_def task_run_def split: if_splits)
  from a b c d e show ?thesis
    unfolding Let_def th_def s_def st1_def s1_def by blast
qed

definition four_failures :: MainState where
  "four_failures =
     state_after_7\<lparr>ms_failure_state :=
       [''https://example.com/alerts.pb'' \<mapsto> \<lparr>count = 4, alert_sent = False\<rparr>]\<rparr>"

theorem failure_counter_and_alert_witness:
  "polls polling_config (loop_input cycle_alerts_down) four_failures
   \<and> distinct (map fst (responses (cycle (loop_input cycle_alerts_down))))
   \<and> (''https://example.com/alerts.pb'', Inl FetchError)
        \<in> set (responses (cycle (loop_input cycle_alerts_down)))
   \<and> fetch_single_feed ''https://example.com/alerts.pb'' (Inl FetchError) = Inl FetchError
   \<and> failure_threshold (cycle_config polling_config) = 5
   \<and> state_of (ms_failure_state four_failures) ''https://example.com/alerts.pb''
       = \<lparr>count = 4, alert_sent = False\<rparr>
   \<and> flag_ok 5 \<lparr>count = 4, alert_sent = False\<rparr>
   \<and> count (state_of (ms_failure_state
        (snd (loop_body polling_config (loop_input cycle_alerts_down) four_failures)))
        ''https://example.com/alerts.pb'') = 5
   \<and> alert_sent (state_of (ms_failure_state
        (snd (loop_body polling_config (loop_input cycle_alerts_down) four_failures)))
        ''https://example.com/alerts.pb'')
   \<and> alerts_for ''https://example.com/alerts.pb''
        (ms_alerts (snd (loop_body polling_config (loop_input cycle_alerts_down) four_failures)))
       = 1"
proof -
  have p: "polls polling_config (loop_input cycle_alerts_down) four_failures"
    by (simp add: polls_def four_failures_def loop_defs)
  have d: "distinct (map fst (responses (cycle (loop_input cycle_alerts_down))))"
    by (simp add: loop_input_def cycle_alerts_down_def)
  have m: "(''https://example.com/alerts.pb'', Inl FetchError)
        \<in> set (responses (cycle (loop_input cycle_alerts_down)))"
    by (simp add: loop_input_def cycle_alerts_down_def)
  have f: "fetch_single_feed ''https://example.com/alerts.pb'' (Inl FetchError) = Inl FetchError"
    by (simp add: fetch_single_feed_def)
  have t: "failure_threshold (cycle_config polling_config) = 5"
    by (simp add: polling_config_def config_def)
  have s: "state_of (ms_failure_state four_failures) ''https://example.com/alerts.pb''
       = \<lparr>count = 4, alert_sent = False\<rparr>"
    by (simp add: four_failures_def state_of_def)
  have a: "alerts_for ''https://example.com/alerts.pb'' (ms_alerts four_failures) = 0"
    by (simp add: four_failures_def state_after_7_def alerts_for_def)
  have k: "flag_ok 5 \<lparr>count = 4, alert_sent = False\<rparr>"
    by (simp add: flag_ok_def)
  from failure_counter_and_alert [OF p d m] show ?thesis
    unfolding Let_def f t s a using p d m f t s k by simp
qed

section \<open>The resolver through the writers of a cycle\<close>

text \<open>
  The resolver that \<^verbatim>\<open>store_vehicle_positions\<close> receives has been through
  \<^verbatim>\<open>store_trip_delays\<close> and \<^verbatim>\<open>store_alerts\<close>. Both keep its caches in agreement
  with the reference data, which they do not write, so the vehicle rows of a cycle are
  extracted with a resolver that satisfies \<open>lookup_ok\<close>.
\<close>

lemma stop_updates_loop_ok:
  "lookup_ok ref fb lk \<Longrightarrow> lookup_ok ref fb (snd (stop_updates_loop sid ref tu sus rows lk))"
proof (induction sus arbitrary: rows lk)
  case Nil
  then show ?case by simp
next
  case (Cons su sus)
  have 1: "lookup_ok ref fb (snd (ensure_stop ref (stu_stop_id su) lk))"
    by (rule ensure_stop_ok(2) [OF Cons.prems])
  have 2: "lookup_ok ref fb
      (snd (get_stop_context ref (tu_trip_id tu) (stu_stop_id su)
              (snd (ensure_stop ref (stu_stop_id su) lk))))"
    by (rule get_stop_context_ok(2) [OF 1])
  show ?case
    using Cons.IH [OF 1] Cons.IH [OF 2] 2 by (simp add: split_beta Let_def split: sum.splits)
qed

lemma trip_delays_loop_ok:
  "lookup_ok ref fb lk \<Longrightarrow> lookup_ok ref fb (snd (trip_delays_loop sid ref es rows lk))"
proof (induction es arbitrary: rows lk)
  case Nil
  then show ?case by simp
next
  case (Cons e es)
  show ?case
  proof (cases "trip_update e")
    case None
    with Cons show ?thesis by simp
  next
    case (Some tu)
    have 1: "lookup_ok ref fb (snd (ensure_trip ref (tu_trip_id tu) lk))"
      by (rule ensure_trip_ok(2) [OF Cons.prems])
    have 2: "lookup_ok ref fb
        (snd (stop_updates_loop sid ref tu (tu_stop_time_update tu) rows
                (snd (ensure_trip ref (tu_trip_id tu) lk))))"
      by (rule stop_updates_loop_ok [OF 1])
    show ?thesis
      using Some Cons.IH [OF 1] Cons.IH [OF 2] 2
      by (simp add: split_beta Let_def split: sum.splits)
  qed
qed

lemma informed_loop_ok:
  "lookup_ok ref fb lk \<Longrightarrow> lookup_ok ref fb (snd (informed_loop ref alert_id ies acc lk))"
proof (induction ies arbitrary: acc lk)
  case Nil
  then show ?case by simp
next
  case (Cons i ies)
  have 1: "lookup_ok ref fb (snd (ensure_route ref (ie_route_id i) lk))"
    by (rule ensure_route_ok(2) [OF Cons.prems])
  have 2: "lookup_ok ref fb
      (snd (ensure_stop ref (ie_stop_id i) (snd (ensure_route ref (ie_route_id i) lk))))"
    by (rule ensure_stop_ok(2) [OF 1])
  have 3: "lookup_ok ref fb
      (snd (ensure_trip ref (ie_trip_id i)
         (snd (ensure_stop ref (ie_stop_id i) (snd (ensure_route ref (ie_route_id i) lk))))))"
    by (rule ensure_trip_ok(2) [OF 2])
  show ?case
    using Cons.IH [OF 3] by (simp add: split_beta Let_def)
qed

lemma alerts_loop_ok:
  "lookup_ok ref fb lk \<Longrightarrow> lookup_ok ref fb (snd (alerts_loop sid ref hdt es acc lk))"
proof (induction es arbitrary: acc lk)
  case Nil
  then show ?case by simp
next
  case (Cons e es)
  show ?case
  proof (cases "alert e")
    case None
    with Cons show ?thesis by simp
  next
    case (Some al)
    have 1: "lookup_ok ref fb
        (snd (informed_loop ref (entity_id e) (al_informed_entity al) a lk))" for a
      by (rule informed_loop_ok [OF Cons.prems])
    show ?thesis
      using Some Cons.IH [OF 1] Cons.IH [OF Cons.prems] Cons.prems
      by (simp add: split_beta Let_def split: sum.splits)
  qed
qed

lemma store_trip_delays_ok:
  assumes "lookup_ok (ref_data db) fb lk"
  shows "lookup_ok (ref_data db) fb (fst (snd (store_trip_delays fls sid env lk db)))"
    and "ref_data (snd (snd (store_trip_delays fls sid env lk db))) = ref_data db"
  using assms trip_delays_loop_ok [OF assms, of sid "entity (message env)" "[]"]
  by (simp_all add: store_trip_delays_def split_beta Let_def split: option.splits sum.splits)

lemma insert_alert_children_ref:
  "ref_data (snd (insert_alert_children fls sid acc db)) = ref_data db"
  by (simp add: insert_alert_children_def insert_alert_routes_def insert_alert_stops_def
      insert_alert_trips_def insert_alert_active_periods_def split: option.splits prod.splits)

lemma store_alert_rows_ref:
  "ref_data (snd (store_alert_rows fls sid acc db)) = ref_data db"
  using insert_alert_children_ref
    [of fls sid acc "db\<lparr>rt_alerts := snd (insert_rows ar_key (map snd (base_rows acc)) (rt_alerts db))\<rparr>"]
  by (auto simp: store_alert_rows_def split_beta Let_def split: option.splits)

lemma store_alerts_ok:
  assumes "lookup_ok (ref_data db) fb lk"
  shows "lookup_ok (ref_data db) fb (fst (snd (store_alerts fls sid env lk db)))"
    and "ref_data (snd (snd (store_alerts fls sid env lk db))) = ref_data db"
  using assms alerts_loop_ok [OF assms, of sid _ "entity (message env)" AlertAcc_init]
  by (simp_all add: store_alerts_def split_beta Let_def store_alert_rows_ref
      split: option.splits sum.splits)

lemma insert_snapshot_ref:
  "ref_data (snd (insert_snapshot fls sid polled indexed db)) = ref_data db"
  by (simp add: insert_snapshot_def split_beta split: sum.splits)

text \<open>So the resolver with which the write phase extracts the vehicle rows agrees with
  the reference data, as the theorem on \<open>extract_vehicle_position_rows\<close> asks.\<close>

lemma vehicle_rows_resolver_ok:
  assumes "insert_snapshot fls sid polled indexed db = (err, db1)"
    and "store_trip_delays fls sid trip_env (DimLookup_init fb) db1 = (r2, lk1, db2)"
    and "store_alerts fls sid alert_env lk1 db2 = (r3, lk2, db3)"
  shows "lookup_ok (ref_data db3) fb lk2" and "ref_data db3 = ref_data db"
proof -
  have ref1: "ref_data db1 = ref_data db"
    using insert_snapshot_ref [of fls sid polled indexed db] assms(1) by simp
  note s2 = store_trip_delays_ok [OF lookup_ok_init, where db = db1 and fb = fb and fls = fls
      and sid = sid and env = trip_env]
  have ref2: "ref_data db2 = ref_data db1" and ok1: "lookup_ok (ref_data db2) fb lk1"
    using s2 assms(2) by simp_all
  note s3 = store_alerts_ok [OF ok1, where fls = fls and sid = sid and env = alert_env]
  show "lookup_ok (ref_data db3) fb lk2" and "ref_data db3 = ref_data db"
    using s3 assms(3) ref1 ref2 by simp_all
qed

subsection \<open>The missing sets only grow, and keep their invariant\<close>


















subsection \<open>Which entities make the resolver load a timetable\<close>










subsection \<open>The missing-trip report of a cycle\<close>













end
